theory Spec2Isabelle
  imports Complex_Main "HOL-Library.Log_Nat"
begin

section \<open>JavaScript numbers\<close>

text \<open>
  Every \<open>number\<close> of \<open>src/app/page.tsx\<close> is an IEEE 754 binary64 value. A finite one is
  the rational it denotes; the two zeros are identified (the page only adds, divides by
  a non-zero constant, compares, floors and prints numbers, and none of these tells
  \<open>-0\<close> from \<open>+0\<close>). Arithmetic rounds to nearest, ties to even, and overflows to an
  infinity.
\<close>

datatype jsnum = NaN | NegInf | Num rat | PosInf

text \<open>\<open>ilog2 x\<close> is the binary exponent of a positive rational: \<open>2^e \<le> x < 2^(e+1)\<close>.\<close>

definition ilog2 :: "rat \<Rightarrow> int" where
  "ilog2 x =
     (if 1 \<le> x then bitlen \<lfloor>x\<rfloor> - 1
      else let b = bitlen \<lfloor>1 / x\<rfloor>
           in if x * 2 ^ nat (b - 1) = 1 then 1 - b else - b)"

text \<open>
  The exponent of the unit in the last place: 53 significant bits in the binade of \<open>x\<close>,
  and the subnormal spacing \<open>2^-1074\<close> below \<open>2^-1022\<close>.
\<close>

definition ulp_exp :: "rat \<Rightarrow> int" where
  "ulp_exp x = max (ilog2 \<bar>x\<bar>) (- 1022) - 52"

text \<open>Round to the nearest integer, a tie to the even neighbour.\<close>

definition rne :: "rat \<Rightarrow> int" where
  "rne x =
     (let f = \<lfloor>x\<rfloor>; r = x - of_int f
      in if r < 1 / 2 then f
         else if 1 / 2 < r then f + 1
         else if even f then f else f + 1)"

text \<open>
  The binary64 value of an exact result \<open>x\<close>: the nearest multiple \<open>n * 2^q\<close> of the unit
  in the last place, and an infinity when that reaches \<open>2^1024\<close>.
\<close>

definition round_double :: "rat \<Rightarrow> jsnum" where
  "round_double x =
     (if x = 0 then Num 0
      else let q = ulp_exp x; n = rne (x / power_int 2 q)
           in if 971 < q \<or> (q = 971 \<and> 2 ^ 53 \<le> \<bar>n\<bar>)
              then (if 0 < x then PosInf else NegInf)
              else Num (of_int n * power_int 2 q))"

text \<open>The same rounding with no bound on the exponent; it is used to state lemmas.\<close>

definition round_nearest :: "rat \<Rightarrow> rat" where
  "round_nearest x = of_int (rne (x / power_int 2 (ulp_exp x))) * power_int 2 (ulp_exp x)"

text \<open>
  A value of the model is a number of the program when it is one of the binary64 values:
  rounding leaves it as it is.
\<close>

fun is_double :: "jsnum \<Rightarrow> bool" where
  "is_double (Num x) = (round_double x = Num x)"
| "is_double _ = True"

text \<open>\<open>a + b\<close>\<close>

fun js_add :: "jsnum \<Rightarrow> jsnum \<Rightarrow> jsnum" where
  "js_add NaN _ = NaN"
| "js_add _ NaN = NaN"
| "js_add PosInf NegInf = NaN"
| "js_add NegInf PosInf = NaN"
| "js_add PosInf _ = PosInf"
| "js_add _ PosInf = PosInf"
| "js_add NegInf _ = NegInf"
| "js_add _ NegInf = NegInf"
| "js_add (Num a) (Num b) = round_double (a + b)"

text \<open>\<open>a / b\<close>; a zero divisor is \<open>+0\<close>.\<close>

fun js_div :: "jsnum \<Rightarrow> jsnum \<Rightarrow> jsnum" where
  "js_div NaN _ = NaN"
| "js_div _ NaN = NaN"
| "js_div (Num a) (Num b) =
     (if b = 0 then (if a = 0 then NaN else if 0 < a then PosInf else NegInf)
      else round_double (a / b))"
| "js_div (Num a) _ = Num 0"
| "js_div PosInf (Num b) = (if 0 \<le> b then PosInf else NegInf)"
| "js_div NegInf (Num b) = (if 0 \<le> b then NegInf else PosInf)"
| "js_div _ _ = NaN"

text \<open>\<open>a >= b\<close> and \<open>a < b\<close>: every comparison with \<open>NaN\<close> is false.\<close>

fun js_ge :: "jsnum \<Rightarrow> jsnum \<Rightarrow> bool" where
  "js_ge NaN _ = False"
| "js_ge _ NaN = False"
| "js_ge PosInf _ = True"
| "js_ge _ NegInf = True"
| "js_ge NegInf _ = False"
| "js_ge _ PosInf = False"
| "js_ge (Num a) (Num b) = (b \<le> a)"

fun js_lt :: "jsnum \<Rightarrow> jsnum \<Rightarrow> bool" where
  "js_lt NaN _ = False"
| "js_lt _ NaN = False"
| "js_lt PosInf _ = False"
| "js_lt _ NegInf = False"
| "js_lt NegInf _ = True"
| "js_lt _ PosInf = True"
| "js_lt (Num a) (Num b) = (a < b)"

text \<open>\<open>Math.floor(a)\<close>\<close>

fun js_floor :: "jsnum \<Rightarrow> jsnum" where
  "js_floor (Num a) = Num (of_int \<lfloor>a\<rfloor>)"
| "js_floor a = a"

section \<open>The active-section tracker\<close>

text \<open>
  \<open>document.getElementById(section)\<close> gives the element, or \<open>null\<close>; of an element the
  handler reads \<open>offsetTop\<close> and \<open>offsetHeight\<close>.
\<close>

record element =
  offsetTop :: jsnum
  offsetHeight :: jsnum

type_synonym document = "string \<Rightarrow> element option"

definition sections :: "string list" where
  "sections = [''home'', ''about'', ''projects'', ''contact'']"

text \<open>The test of the inner \<open>if\<close> of \<open>handleScroll\<close>.\<close>

definition in_section :: "jsnum \<Rightarrow> element \<Rightarrow> bool" where
  "in_section scrollPosition el =
     (js_ge scrollPosition (offsetTop el) \<and>
      js_lt scrollPosition (js_add (offsetTop el) (offsetHeight el)))"

text \<open>
  The \<open>for (const section of sections)\<close> loop: \<open>Some section\<close> when the loop called
  \<open>setActiveSection(section)\<close> and left by \<open>break\<close>, \<open>None\<close> when it ran to the end.
\<close>

fun scan_sections :: "document \<Rightarrow> jsnum \<Rightarrow> string list \<Rightarrow> string option" where
  "scan_sections doc scrollPosition [] = None"
| "scan_sections doc scrollPosition (section # rest) =
     (case doc section of
        None \<Rightarrow> scan_sections doc scrollPosition rest
      | Some el \<Rightarrow>
          if in_section scrollPosition el then Some section
          else scan_sections doc scrollPosition rest)"

text \<open>
  \<open>handleScroll\<close>, as a function of the document, \<open>window.scrollY\<close> and the state
  \<open>activeSection\<close>, returning the state after the event.
\<close>

definition handleScroll :: "document \<Rightarrow> jsnum \<Rightarrow> string \<Rightarrow> string" where
  "handleScroll doc scrollY activeSection =
     (let scrollPosition = js_add scrollY (Num 100)
      in case scan_sections doc scrollPosition sections of
           Some section \<Rightarrow> section
         | None \<Rightarrow> activeSection)"

text \<open>A page session: the state starts at \<open>useState("home")\<close> and every scroll event,
  with the layout and the offset of its moment, runs the handler.\<close>

definition initialSection :: string where
  "initialSection = ''home''"

fun session :: "string \<Rightarrow> (document \<times> jsnum) list \<Rightarrow> string" where
  "session activeSection [] = activeSection"
| "session activeSection ((doc, scrollY) # events) =
     session (handleScroll doc scrollY activeSection) events"

section \<open>The project lists\<close>

record project =
  project_id :: jsnum
  title :: string
  description :: string
  image :: string
  technologies :: "string list"
  github :: string
  demo :: string
  featured :: bool

definition featuredProjects :: "project list \<Rightarrow> project list" where
  "featuredProjects projects = filter (\<lambda>project. featured project) projects"

definition otherProjects :: "project list \<Rightarrow> project list" where
  "otherProjects projects = filter (\<lambda>project. \<not> featured project) projects"

section \<open>The animated counter\<close>

text \<open>
  The variables of one run of the effect of \<open>AnimatedCounter\<close>: \<open>start\<close>, \<open>end\<close>,
  \<open>increment\<close>, and whether the interval \<open>timer\<close> is still set.
\<close>

record closure =
  start :: jsnum
  end_value :: jsnum
  increment :: jsnum
  timer :: bool

text \<open>
  The component: the prop \<open>value\<close>, the state \<open>count\<close> that the span shows, the result
  \<open>isInView\<close> of \<open>useInView(ref, { once: true })\<close>, and the closures of the runs of the
  effect that set an interval, in the order of the runs.
\<close>

record animated_counter =
  value_prop :: jsnum
  count :: jsnum
  isInView :: bool
  effects :: "closure list"

text \<open>
  Mounting: \<open>useState(0)\<close>, the element not yet seen. The effect runs once after the
  mount, with \<open>isInView\<close> false, and does nothing.
\<close>

definition mount :: "jsnum \<Rightarrow> animated_counter" where
  "mount v = \<lparr>value_prop = v, count = Num 0, isInView = False, effects = []\<rparr>"

text \<open>The body of the effect, up to \<open>setInterval\<close>.\<close>

definition effect :: "animated_counter \<Rightarrow> animated_counter" where
  "effect s =
     (if isInView s then
        let start0 = Num 0;
            end0 = value_prop s;
            duration = Num 2000;
            increment0 = js_div end0 (js_div duration (Num 16))
        in s\<lparr>effects := effects s @
              [\<lparr>start = start0, end_value = end0, increment = increment0, timer = True\<rparr>]\<rparr>
      else s)"

text \<open>
  The function given to \<open>setInterval\<close>: it returns the closure after the call and the
  argument of \<open>setCount\<close>.
\<close>

definition interval_callback :: "closure \<Rightarrow> closure \<times> jsnum" where
  "interval_callback c =
     (let start' = js_add (start c) (increment c)
      in if js_ge start' (end_value c)
         then (c\<lparr>start := start', timer := False\<rparr>, end_value c)
         else (c\<lparr>start := start'\<rparr>, js_floor start'))"

text \<open>
  Modelled from the spec: the hook \<open>useInView\<close> of framer-motion is not under \<open>src/\<close>.
  The spec says that the animation starts the first time the counter's container becomes
  visible in the viewport (a one-shot visibility observation) and never restarts on
  subsequent visibility changes. \<open>useInView once seen entering\<close> is the result of the hook
  after its observer has reported that the element enters or leaves the viewport, when
  the result was \<open>seen\<close> before: with the option \<open>once\<close> it stays true from the first entry
  on, without the option it follows the reports.
\<close>

definition useInView :: "bool \<Rightarrow> bool \<Rightarrow> bool \<Rightarrow> bool" where
  "useInView once seen entering = (if once then seen \<or> entering else entering)"

text \<open>
  The cleanup that the effect returns, \<open>() => clearInterval(timer)\<close>: only a run with
  \<open>isInView\<close> true returns one, and it clears the interval of that run.
\<close>

definition cleanup :: "animated_counter \<Rightarrow> animated_counter" where
  "cleanup s =
     (if isInView s \<and> effects s \<noteq> []
      then s\<lparr>effects := butlast (effects s) @ [(last (effects s))\<lparr>timer := False\<rparr>]\<rparr>
      else s)"

text \<open>
  Modelled from the spec: the scheduling of effects by React is not under \<open>src/\<close>. A
  report of the observer sets the result of the hook; when the result has changed the
  component renders again and the effect, whose dependencies are \<open>[isInView, value]\<close>,
  runs again after the cleanup of its last run; when the result has not changed nothing
  happens. The prop \<open>value\<close> is the constant 10 of the page and does not change.
\<close>

definition rerender :: "bool \<Rightarrow> animated_counter \<Rightarrow> bool \<Rightarrow> animated_counter" where
  "rerender once s entering =
     (let seen = useInView once (isInView s) entering
      in if seen = isInView s then s else effect ((cleanup s)\<lparr>isInView := seen\<rparr>))"

text \<open>
  What happens to a mounted counter. \<open>Intersection entering\<close>: the observer reports that
  the element enters or leaves the viewport; the component calls
  \<open>useInView(ref, { once: true })\<close>. \<open>Interval i\<close>: the interval of the \<open>i\<close>-th run of the
  effect is due; a cleared interval has no callback any more.
\<close>

datatype event = Intersection bool | Interval nat

fun step :: "animated_counter \<Rightarrow> event \<Rightarrow> animated_counter" where
  "step s (Intersection entering) = rerender True s entering"
| "step s (Interval i) =
     (if i < length (effects s) \<and> timer (effects s ! i)
      then let (c, n) = interval_callback (effects s ! i)
           in s\<lparr>effects := (effects s)[i := c], count := n\<rparr>
      else s)"


text \<open>
  The counter of the page, \<open><AnimatedCounter value={v} />\<close>, at the moment it is first seen,
  and after \<open>n\<close> further periods of its interval.
\<close>

definition started :: "jsnum \<Rightarrow> animated_counter" where
  "started v = step (mount v) (Intersection True)"

definition ticks :: "nat \<Rightarrow> animated_counter \<Rightarrow> animated_counter" where
  "ticks n s = ((\<lambda>s. step s (Interval 0)) ^^ n) s"

section \<open>Specification-side notions\<close>


text \<open>
  The specification's words for the layout: every section that is on the page has a top
  offset and a height, which the browser reports as integers.
\<close>

definition layout_document :: "(string \<Rightarrow> (int \<times> int) option) \<Rightarrow> document" where
  "layout_document layout section =
     map_option (\<lambda>(t, h). \<lparr>offsetTop = Num (of_int t), offsetHeight = Num (of_int h)\<rparr>)
       (layout section)"

text \<open>
  The specification's words for the counter: the accumulator after \<open>k\<close> samples, that is
  \<open>k\<close> additions of the increment \<open>target / (duration / interval)\<close> to 0.
\<close>

definition accumulator :: "jsnum \<Rightarrow> nat \<Rightarrow> jsnum" where
  "accumulator target k =
     ((\<lambda>a. js_add a (js_div target (js_div (Num 2000) (Num 16)))) ^^ k) (Num 0)"

text \<open>
  The states of the page's counter once it has been seen: one run of the effect, with
  accumulator \<open>a\<close>, shown value \<open>c\<close> and the interval set or cleared (\<open>r\<close>).
\<close>

definition sampling :: "jsnum \<Rightarrow> jsnum \<Rightarrow> jsnum \<Rightarrow> bool \<Rightarrow> animated_counter" where
  "sampling v a c r =
     \<lparr>value_prop = v, count = c, isInView = True,
      effects = [\<lparr>start = a, end_value = v,
                  increment = js_div v (js_div (Num 2000) (Num 16)), timer = r\<rparr>]\<rparr>"


text \<open>
  What holds of the counter of a non-negative \<open>v\<close> at every sample: while the interval
  is set the accumulator is a finite number, the shown value is an integer below it and
  not above \<open>v\<close>; once the interval is cleared the shown value is \<open>v\<close>.
\<close>

definition ramp_state :: "jsnum \<Rightarrow> animated_counter \<Rightarrow> bool" where
  "ramp_state v st =
     ((\<exists>s z. st = sampling v (Num s) (Num (of_int z)) True \<and> round_double s = Num s \<and>
             of_int z \<le> s \<and> js_ge v (Num (of_int z))) \<or>
      (\<exists>a. st = sampling v a v False))"


section \<open>Properties of the rounding\<close>

lemma p2_suc: "power_int (2::rat) (e + 1) = 2 * power_int 2 e"
  by (simp add: power_int_add)

lemma ilog2_bounds_ge1:
  assumes "1 \<le> x"
  shows "power_int 2 (ilog2 x) \<le> x \<and> x < power_int 2 (ilog2 x + 1)"
proof -
  define m where "m = \<lfloor>x\<rfloor>"
  have m: "1 \<le> m" using assms by (simp add: m_def)
  then have mpos: "0 < m" by simp
  define b where "b = bitlen m"
  from bitlen_bounds [OF mpos] have lo: "2 ^ nat (b - 1) \<le> m" and hi: "m < 2 ^ nat b"
    by (simp_all add: b_def)
  have bpos: "1 \<le> b" using mpos by (simp add: b_def bitlen_def floorlog_def)
  have e: "ilog2 x = b - 1" using assms by (simp add: ilog2_def b_def m_def)
  have mx: "of_int m \<le> x" by (simp add: m_def)
  have "(2::rat) ^ nat (b - 1) \<le> of_int m" using lo by simp
  then have "(2::rat) ^ nat (b - 1) \<le> x" using mx by (rule order_trans)
  then have 1: "power_int 2 (b - 1) \<le> x" using bpos by (simp add: power_int_def)
  have "m + 1 \<le> 2 ^ nat b" using hi by simp
  then have "(of_int (m + 1) :: rat) \<le> of_int (2 ^ nat b)" by (simp only: of_int_le_iff)
  then have "(of_int (m + 1) :: rat) \<le> 2 ^ nat b" by simp
  moreover have "x < of_int (m + 1)" unfolding m_def by linarith
  ultimately have "x < 2 ^ nat b" by (rule less_le_trans [rotated])
  then have 2: "x < power_int 2 b" using bpos by (simp add: power_int_def)
  from 1 2 e show ?thesis by simp
qed

lemma ilog2_bounds_lt1:
  assumes "0 < x" "x < 1"
  shows "power_int 2 (ilog2 x) \<le> x \<and> x < power_int 2 (ilog2 x + 1)"
proof -
  define y where "y = 1 / x"
  have y1: "1 < y" using assms by (simp add: y_def)
  define m where "m = \<lfloor>y\<rfloor>"
  have m: "1 \<le> m" using y1 by (simp add: m_def)
  then have mpos: "0 < m" by simp
  define b where "b = bitlen m"
  from bitlen_bounds [OF mpos] have lo: "2 ^ nat (b - 1) \<le> m" and hi: "m < 2 ^ nat b"
    by (simp_all add: b_def)
  have bpos: "1 \<le> b" using mpos by (simp add: b_def bitlen_def floorlog_def)
  have my: "of_int m \<le> y" by (simp add: m_def)
  have "(2::rat) ^ nat (b - 1) \<le> of_int m" using lo by simp
  then have ylo: "(2::rat) ^ nat (b - 1) \<le> y" using my by (rule order_trans)
  have "m + 1 \<le> 2 ^ nat b" using hi by simp
  then have "(of_int (m + 1) :: rat) \<le> of_int (2 ^ nat b)" by (simp only: of_int_le_iff)
  then have "(of_int (m + 1) :: rat) \<le> 2 ^ nat b" by simp
  moreover have "y < of_int (m + 1)" unfolding m_def by linarith
  ultimately have yhi: "y < 2 ^ nat b" by (rule less_le_trans [rotated])
  have xlo: "1 / 2 ^ nat b < x"
    using yhi assms(1) by (simp add: y_def field_simps)
  have xhi: "x \<le> 1 / 2 ^ nat (b - 1)"
    using ylo assms(1) by (simp add: y_def field_simps)
  have pm: "power_int (2::rat) (- b) = 1 / 2 ^ nat b"
    using bpos by (simp add: power_int_def field_simps)
  have pm1: "power_int (2::rat) (1 - b) = 1 / 2 ^ nat (b - 1)"
    using bpos by (simp add: power_int_def field_simps)
  show ?thesis
  proof (cases "x * 2 ^ nat (b - 1) = 1")
    case True
    then have e: "ilog2 x = 1 - b"
      using assms by (simp add: ilog2_def Let_def b_def m_def y_def)
    have xe: "x = 1 / 2 ^ nat (b - 1)" using True by (simp add: field_simps)
    have "x < power_int 2 (1 - b + 1)"
    proof -
      have "x = power_int 2 (1 - b)" using xe pm1 by simp
      then have "power_int 2 (1 - b + 1) = 2 * x" by (simp only: p2_suc)
      moreover have "x < 2 * x" using assms(1) by simp
      ultimately show ?thesis by (simp only:)
    qed
    then show ?thesis using e xe pm1 by simp
  next
    case False
    then have e: "ilog2 x = - b"
      using assms by (simp add: ilog2_def Let_def b_def m_def y_def)
    have "x \<noteq> 1 / 2 ^ nat (b - 1)" using False by (simp add: field_simps)
    then have "x < 1 / 2 ^ nat (b - 1)" using xhi by simp
    moreover have "- b + 1 = 1 - b" by simp
    ultimately show ?thesis using e xlo pm pm1 by simp
  qed
qed

lemma ilog2_bounds:
  assumes "0 < x"
  shows "power_int 2 (ilog2 x) \<le> x" and "x < power_int 2 (ilog2 x + 1)"
  using ilog2_bounds_ge1 [of x] ilog2_bounds_lt1 [of x] assms
  by (cases "1 \<le> x"; simp)+

lemma power_int_2_mono: "a \<le> b \<Longrightarrow> power_int (2::rat) a \<le> power_int 2 b"
  by (rule power_int_increasing) simp_all

lemma power_int_2_less_cancel:
  assumes "power_int (2::rat) a < power_int 2 b" shows "a < b"
proof (rule ccontr)
  assume "\<not> a < b"
  then have "b \<le> a" by simp
  then have "power_int (2::rat) b \<le> power_int 2 a" by (rule power_int_2_mono)
  with assms show False by simp
qed

lemma ilog2_unique:
  assumes "power_int 2 e \<le> x" "x < power_int 2 (e + 1)"
  shows "ilog2 x = e"
proof -
  have "0 < power_int (2::rat) e" by simp
  then have x: "0 < x" using assms(1) by (rule less_le_trans)
  note b = ilog2_bounds [OF x]
  have "power_int (2::rat) e < power_int 2 (ilog2 x + 1)" using assms(1) b(2) by simp
  then have 1: "e < ilog2 x + 1" by (rule power_int_2_less_cancel)
  have "power_int (2::rat) (ilog2 x) < power_int 2 (e + 1)" using assms(2) b(1) by simp
  then have 2: "ilog2 x < e + 1" by (rule power_int_2_less_cancel)
  from 1 2 show ?thesis by simp
qed

lemma ilog2_mono:
  assumes "0 < x" "x \<le> y"
  shows "ilog2 x \<le> ilog2 y"
proof -
  have y: "0 < y" using assms by simp
  have "power_int (2::rat) (ilog2 x) \<le> x" using assms(1) by (rule ilog2_bounds)
  also have "x \<le> y" by fact
  also have "y < power_int 2 (ilog2 y + 1)" using y by (rule ilog2_bounds)
  finally have "ilog2 x < ilog2 y + 1" by (rule power_int_2_less_cancel)
  then show ?thesis by simp
qed

lemma rne_cases:
  "\<bar>x - of_int (rne x)\<bar> < 1 / 2 \<or> (\<bar>x - of_int (rne x)\<bar> = 1 / 2 \<and> even (rne x))"
proof -
  define f where "f = \<lfloor>x\<rfloor>"
  define r where "r = x - of_int f"
  have r: "0 \<le> r" "r < 1" unfolding r_def f_def by linarith+
  consider "r < 1 / 2" | "1 / 2 < r" | "r = 1 / 2" "even f" | "r = 1 / 2" "odd f"
    by fastforce
  then show ?thesis
  proof cases
    case 1
    then have e: "rne x = f" by (simp add: rne_def Let_def f_def r_def)
    have "\<bar>x - of_int f\<bar> < 1 / 2" using 1 r by (simp add: r_def)
    then show ?thesis unfolding e by blast
  next
    case 2
    then have e: "rne x = f + 1" by (simp add: rne_def Let_def f_def r_def)
    have "\<bar>x - of_int (f + 1)\<bar> < 1 / 2" using 2 r by (simp add: r_def)
    then show ?thesis unfolding e by blast
  next
    case 3
    then have e: "rne x = f" by (simp add: rne_def Let_def f_def r_def)
    have "\<bar>x - of_int f\<bar> = 1 / 2" using 3 r by (simp add: r_def)
    then show ?thesis using 3(2) unfolding e by blast
  next
    case 4
    then have e: "rne x = f + 1" by (simp add: rne_def Let_def f_def r_def)
    have "\<bar>x - of_int (f + 1)\<bar> = 1 / 2" using 4 r by (simp add: r_def)
    moreover have "even (f + 1)" using 4(2) by simp
    ultimately show ?thesis unfolding e by blast
  qed
qed

lemma rne_unique:
  assumes "\<bar>x - of_int n\<bar> < 1 / 2 \<or> (\<bar>x - of_int n\<bar> = 1 / 2 \<and> even n)"
  shows "rne x = n"
proof (rule ccontr)
  assume ne: "rne x \<noteq> n"
  define m where "m = rne x"
  have m: "\<bar>x - of_int m\<bar> < 1 / 2 \<or> (\<bar>x - of_int m\<bar> = 1 / 2 \<and> even m)"
    unfolding m_def by (rule rne_cases)
  have d: "\<bar>(of_int (m - n) :: rat)\<bar> \<le> \<bar>x - of_int m\<bar> + \<bar>x - of_int n\<bar>" by simp
  have "m \<noteq> n" using ne by (simp add: m_def)
  then have "1 \<le> \<bar>m - n\<bar>" by simp
  then have one: "(1::rat) \<le> \<bar>of_int (m - n)\<bar>" by (metis of_int_1_le_iff of_int_abs)
  from m assms d one have tie: "\<bar>x - of_int m\<bar> = 1 / 2" "\<bar>x - of_int n\<bar> = 1 / 2" "even m" "even n"
    by linarith+
  from tie(1,2) d one have "\<bar>(of_int (m - n) :: rat)\<bar> = 1" by linarith
  then have "\<bar>m - n\<bar> = 1" by (metis of_int_abs of_int_eq_1_iff)
  then have "odd (m - n)" by presburger
  with tie(3,4) show False by simp
qed

lemma rne_of_int: "rne (of_int n) = n"
  by (rule rne_unique) simp

lemma rne_minus: "rne (- x) = - rne x"
proof (rule rne_unique)
  have "\<bar>- x - of_int (- rne x)\<bar> = \<bar>x - of_int (rne x)\<bar>" by simp
  then show "\<bar>- x - of_int (- rne x)\<bar> < 1 / 2 \<or>
        (\<bar>- x - of_int (- rne x)\<bar> = 1 / 2 \<and> even (- rne x))"
    using rne_cases [of x] by simp
qed

lemma rne_near: "\<bar>x - of_int (rne x)\<bar> \<le> 1 / 2"
  using rne_cases [of x] by linarith

lemma rne_mono:
  assumes "x \<le> y"
  shows "rne x \<le> rne y"
proof (rule ccontr)
  assume "\<not> rne x \<le> rne y"
  then have "rne y + 1 \<le> rne x" by simp
  then have gap: "(of_int (rne y) :: rat) + 1 \<le> of_int (rne x)"
    by (metis of_int_1 of_int_add of_int_le_iff)
  have nx: "\<bar>x - of_int (rne x)\<bar> \<le> 1 / 2" and ny: "\<bar>y - of_int (rne y)\<bar> \<le> 1 / 2"
    by (rule rne_near)+
  from gap nx ny assms have "x = y" by linarith
  with \<open>\<not> rne x \<le> rne y\<close> show False by simp
qed

lemma p2_add_nat: "power_int (2::rat) (q + int k) = power_int 2 q * 2 ^ k"
  by (simp add: power_int_add)

lemma ulp_exp_ge: "- 1074 \<le> ulp_exp x"
  by (simp add: ulp_exp_def)

lemma ulp_exp_abs: "ulp_exp \<bar>x\<bar> = ulp_exp x"
  by (simp add: ulp_exp_def)

lemma ulp_exp_minus: "ulp_exp (- x) = ulp_exp x"
  by (simp add: ulp_exp_def)

lemma scaled_less:
  assumes "0 < x"
  shows "x / power_int 2 (ulp_exp x) < 2 ^ 53"
proof -
  have "ilog2 x + 1 \<le> ulp_exp x + 53" using assms by (simp add: ulp_exp_def)
  then have "power_int (2::rat) (ilog2 x + 1) \<le> power_int 2 (ulp_exp x + 53)"
    by (rule power_int_2_mono)
  with ilog2_bounds(2) [OF assms] have "x < power_int 2 (ulp_exp x + 53)"
    by (rule less_le_trans)
  also have "\<dots> = power_int 2 (ulp_exp x) * 2 ^ 53"
    using p2_add_nat [of "ulp_exp x" 53] by simp
  finally show ?thesis by (simp add: field_simps)
qed

lemma scaled_ge:
  assumes "0 < x" "- 1022 \<le> ilog2 x"
  shows "2 ^ 52 \<le> x / power_int 2 (ulp_exp x)"
proof -
  have e: "ilog2 x = ulp_exp x + 52" using assms by (simp add: ulp_exp_def)
  have "power_int 2 (ulp_exp x + 52) \<le> x"
    using ilog2_bounds(1) [OF assms(1)] by (simp only: e)
  moreover have "power_int (2::rat) (ulp_exp x + 52) = power_int 2 (ulp_exp x) * 2 ^ 52"
    using p2_add_nat [of "ulp_exp x" 52] by simp
  ultimately show ?thesis by (simp add: field_simps)
qed

lemma rne_le_of_int:
  assumes "x \<le> of_int n" shows "rne x \<le> n"
  using rne_mono [OF assms] by (simp add: rne_of_int)

lemma rne_ge_of_int:
  assumes "of_int n \<le> x" shows "n \<le> rne x"
  using rne_mono [OF assms] by (simp add: rne_of_int)

lemma mant_le:
  assumes "0 < x"
  shows "rne (x / power_int 2 (ulp_exp x)) \<le> 2 ^ 53"
proof (rule rne_le_of_int)
  show "x / power_int 2 (ulp_exp x) \<le> of_int (2 ^ 53)"
    using scaled_less [OF assms] by simp
qed

lemma mant_nonneg:
  assumes "0 \<le> x"
  shows "0 \<le> rne (x / power_int 2 (ulp_exp x))"
proof (rule rne_ge_of_int)
  show "of_int 0 \<le> x / power_int 2 (ulp_exp x)" using assms by simp
qed

lemma mant_ge:
  assumes "0 < x" "- 1022 \<le> ilog2 x"
  shows "2 ^ 52 \<le> rne (x / power_int 2 (ulp_exp x))"
proof (rule rne_ge_of_int)
  show "of_int (2 ^ 52) \<le> x / power_int 2 (ulp_exp x)"
    using scaled_ge [OF assms] by simp
qed

lemma round_nearest_0: "round_nearest 0 = 0"
  by (simp add: round_nearest_def rne_def)

lemma round_nearest_minus: "round_nearest (- x) = - round_nearest x"
  by (simp add: round_nearest_def ulp_exp_minus rne_minus)

lemma round_nearest_nonneg:
  assumes "0 \<le> x" shows "0 \<le> round_nearest x"
  using mant_nonneg [OF assms] by (simp add: round_nearest_def)

lemma round_nearest_le:
  assumes "0 < x"
  shows "round_nearest x \<le> power_int 2 (ulp_exp x + 53)"
proof -
  have "(of_int (rne (x / power_int 2 (ulp_exp x))) :: rat) \<le> of_int (2 ^ 53)"
    using mant_le [OF assms] by (simp only: of_int_le_iff)
  then have "round_nearest x \<le> of_int (2 ^ 53) * power_int 2 (ulp_exp x)"
    unfolding round_nearest_def by (rule mult_right_mono) simp
  then show ?thesis using p2_add_nat [of "ulp_exp x" 53] by (simp add: mult.commute)
qed

lemma round_nearest_ge:
  assumes "0 < x" "- 1022 \<le> ilog2 x"
  shows "power_int 2 (ulp_exp x + 52) \<le> round_nearest x"
proof -
  have "(of_int (2 ^ 52) :: rat) \<le> of_int (rne (x / power_int 2 (ulp_exp x)))"
    using mant_ge [OF assms] by (simp only: of_int_le_iff)
  then have "of_int (2 ^ 52) * power_int 2 (ulp_exp x) \<le> round_nearest x"
    unfolding round_nearest_def by (rule mult_right_mono) simp
  then show ?thesis using p2_add_nat [of "ulp_exp x" 52] by (simp add: mult.commute)
qed

lemma ulp_exp_mono:
  assumes "0 < x" "x \<le> y"
  shows "ulp_exp x \<le> ulp_exp y"
  using ilog2_mono [OF assms] assms by (simp add: ulp_exp_def)

lemma round_nearest_mono_pos:
  assumes "0 < x" "x \<le> y"
  shows "round_nearest x \<le> round_nearest y"
proof -
  have y: "0 < y" using assms by simp
  have q: "ulp_exp x \<le> ulp_exp y" using assms by (rule ulp_exp_mono)
  show ?thesis
  proof (cases "ulp_exp x = ulp_exp y")
    case True
    have "x / power_int 2 (ulp_exp y) \<le> y / power_int 2 (ulp_exp y)"
      using assms(2) by (simp add: divide_right_mono)
    then have "rne (x / power_int 2 (ulp_exp y)) \<le> rne (y / power_int 2 (ulp_exp y))"
      by (rule rne_mono)
    then have "(of_int (rne (x / power_int 2 (ulp_exp y))) :: rat)
        \<le> of_int (rne (y / power_int 2 (ulp_exp y)))"
      by (simp only: of_int_le_iff)
    then have "of_int (rne (x / power_int 2 (ulp_exp y))) * power_int 2 (ulp_exp y)
        \<le> of_int (rne (y / power_int 2 (ulp_exp y))) * power_int (2::rat) (ulp_exp y)"
      by (rule mult_right_mono) simp
    then show ?thesis by (simp only: round_nearest_def True)
  next
    case False
    with q have lt: "ulp_exp x < ulp_exp y" by simp
    have "- 1074 \<le> ulp_exp x" by (rule ulp_exp_ge)
    with lt have normal: "- 1022 \<le> ilog2 \<bar>y\<bar>" unfolding ulp_exp_def by linarith
    then have normal': "- 1022 \<le> ilog2 y" using y by simp
    have "round_nearest x \<le> power_int 2 (ulp_exp x + 53)"
      using assms(1) by (rule round_nearest_le)
    also have "\<dots> \<le> power_int 2 (ulp_exp y + 52)"
      using lt by (intro power_int_2_mono) simp
    also have "\<dots> \<le> round_nearest y"
      using y normal' by (rule round_nearest_ge)
    finally show ?thesis .
  qed
qed

lemma round_nearest_mono:
  assumes "x \<le> y"
  shows "round_nearest x \<le> round_nearest y"
proof -
  consider "0 < x" | "x \<le> 0" "0 \<le> y" | "y < 0" using assms by linarith
  then show ?thesis
  proof cases
    case 1
    then show ?thesis using assms by (rule round_nearest_mono_pos)
  next
    case 2
    have "0 \<le> round_nearest (- x)" using 2(1) by (intro round_nearest_nonneg) simp
    then have "round_nearest x \<le> 0" by (simp add: round_nearest_minus)
    also have "0 \<le> round_nearest y" using 2(2) by (rule round_nearest_nonneg)
    finally show ?thesis .
  next
    case 3
    then have "0 < - y" "- y \<le> - x" using assms by simp_all
    then have "round_nearest (- y) \<le> round_nearest (- x)" by (rule round_nearest_mono_pos)
    then show ?thesis by (simp add: round_nearest_minus)
  qed
qed

lemma p2_1024: "power_int (2::rat) 1024 = 2 ^ 1024"
  by (simp only: power_int_numeral)

lemma overflow_iff_pos:
  assumes "0 < x"
  shows "(971 < ulp_exp x \<or> (ulp_exp x = 971 \<and> 2 ^ 53 \<le> \<bar>rne (x / power_int 2 (ulp_exp x))\<bar>))
     \<longleftrightarrow> 2 ^ 1024 \<le> round_nearest x"
proof -
  define q where "q = ulp_exp x"
  define n where "n = rne (x / power_int 2 q)"
  have rn: "round_nearest x = of_int n * power_int 2 q"
    by (simp add: round_nearest_def n_def q_def)
  have n0: "0 \<le> n" unfolding n_def q_def using assms by (intro mant_nonneg) simp
  have p971: "(2::rat) ^ 53 * power_int 2 971 = power_int 2 1024"
    using p2_add_nat [of 971 53] by (simp add: mult.commute)
  show ?thesis
  proof (cases "971 < q")
    case True
    then have normal: "- 1022 \<le> ilog2 x" using assms unfolding q_def ulp_exp_def by simp
    have "power_int (2::rat) 1024 \<le> power_int 2 (q + 52)"
      using True by (intro power_int_2_mono) simp
    also have "\<dots> \<le> round_nearest x"
      unfolding q_def using assms normal by (rule round_nearest_ge)
    finally show ?thesis using True by (simp only: p2_1024 q_def [symmetric]) simp
  next
    case False
    show ?thesis
    proof (cases "q = 971")
      case q: True
      have "(2 ^ 53 \<le> n) \<longleftrightarrow> ((of_int (2 ^ 53) :: rat) \<le> of_int n)"
        by (simp only: of_int_le_iff)
      also have "\<dots> \<longleftrightarrow> (of_int (2 ^ 53) * power_int (2::rat) 971 \<le> of_int n * power_int 2 971)"
        by (subst mult_le_cancel_right_pos) simp_all
      also have "\<dots> \<longleftrightarrow> 2 ^ 1024 \<le> round_nearest x"
        using p971 by (simp add: rn q p2_1024)
      finally have "(2 ^ 53 \<le> n) \<longleftrightarrow> 2 ^ 1024 \<le> round_nearest x" .
      moreover have "\<bar>n\<bar> = n" using n0 by simp
      ultimately have "(2 ^ 53 \<le> \<bar>n\<bar>) \<longleftrightarrow> 2 ^ 1024 \<le> round_nearest x"
        by (simp only:)
      then show ?thesis
        unfolding q_def [symmetric] n_def [symmetric] using q False by blast
    next
      case ne: False
      with False have "q + 53 \<le> 1023" by simp
      then have "power_int (2::rat) (q + 53) \<le> power_int 2 1023" by (rule power_int_2_mono)
      moreover have "round_nearest x \<le> power_int 2 (q + 53)"
        unfolding q_def using assms by (rule round_nearest_le)
      moreover have "power_int (2::rat) 1023 < power_int 2 1024"
        by (rule power_int_strict_increasing) simp_all
      ultimately have "round_nearest x < 2 ^ 1024" by (simp only: p2_1024)
      then show ?thesis using False ne by (simp add: q_def [symmetric])
    qed
  qed
qed

lemma overflow_iff:
  assumes "x \<noteq> 0"
  shows "(971 < ulp_exp x \<or> (ulp_exp x = 971 \<and> 2 ^ 53 \<le> \<bar>rne (x / power_int 2 (ulp_exp x))\<bar>))
     \<longleftrightarrow> 2 ^ 1024 \<le> \<bar>round_nearest x\<bar>"
proof (cases "0 < x")
  case True
  then have "0 \<le> round_nearest x" by (intro round_nearest_nonneg) simp
  then show ?thesis using overflow_iff_pos [OF True] by simp
next
  case False
  with assms have neg: "0 < - x" by simp
  then have "0 \<le> round_nearest (- x)" by (intro round_nearest_nonneg) simp
  then have a: "\<bar>round_nearest x\<bar> = round_nearest (- x)" by (simp add: round_nearest_minus)
  have b: "\<bar>rne (x / power_int 2 (ulp_exp x))\<bar> = \<bar>rne (- x / power_int 2 (ulp_exp (- x)))\<bar>"
    using rne_minus [of "x / power_int 2 (ulp_exp x)"] by (simp add: ulp_exp_minus)
  show ?thesis using overflow_iff_pos [OF neg] by (simp only: a b ulp_exp_minus)
qed

lemma round_double_alt:
  "round_double x =
     (if 2 ^ 1024 \<le> round_nearest x then PosInf
      else if round_nearest x \<le> - (2 ^ 1024) then NegInf
      else Num (round_nearest x))"
proof (cases "x = 0")
  case True
  then show ?thesis by (simp add: round_double_def round_nearest_0)
next
  case False
  note ov = overflow_iff [OF False]
  show ?thesis
  proof (cases "0 < x")
    case True
    then have "0 \<le> round_nearest x" by (intro round_nearest_nonneg) simp
    then show ?thesis using ov True False
      by (simp add: round_double_def Let_def round_nearest_def [symmetric])
  next
    case neg: False
    with False have "0 \<le> - x" by simp
    then have "0 \<le> round_nearest (- x)" by (rule round_nearest_nonneg)
    then have "round_nearest x \<le> 0" by (simp add: round_nearest_minus)
    then show ?thesis using ov neg False
      by (simp add: round_double_def Let_def round_nearest_def [symmetric])
  qed
qed

lemma round_nearest_exact:
  assumes "0 < n" "n \<le> 2 ^ 53" "- 1074 \<le> q"
  shows "round_nearest (of_int n * power_int 2 q) = of_int n * power_int 2 q"
proof -
  define y :: rat where "y = of_int n * power_int 2 q"
  have ypos: "0 < y" using assms(1) by (simp add: y_def)
  show ?thesis
  proof (cases "n = 2 ^ 53")
    case True
    have y53: "y = power_int 2 (q + 53)"
      using p2_add_nat [of q 53] by (simp add: y_def True mult.commute)
    have "power_int 2 (q + 53) \<le> y" by (simp only: y53)
    moreover have "y < power_int 2 (q + 53 + 1)"
      unfolding y53 by (rule power_int_strict_increasing) simp_all
    ultimately have "ilog2 y = q + 53" by (rule ilog2_unique)
    then have u: "ulp_exp y = q + 1" using ypos assms(3) by (simp add: ulp_exp_def)
    have "power_int (2::rat) (q + 1 + 52) = power_int 2 (q + 1) * 2 ^ 52"
      using p2_add_nat [of "q + 1" 52] by simp
    moreover have "q + 1 + 52 = q + 53" by simp
    ultimately have split: "y = power_int 2 (q + 1) * 2 ^ 52" by (simp only: y53)
    then have "y / power_int 2 (q + 1) = of_int (2 ^ 52)" by simp
    then have "rne (y / power_int 2 (q + 1)) = 2 ^ 52" by (simp only: rne_of_int)
    then have "round_nearest y = of_int (2 ^ 52) * power_int 2 (q + 1)"
      by (simp only: round_nearest_def u)
    also have "\<dots> = y" using split by simp
    finally show ?thesis by (simp only: y_def)
  next
    case False
    with assms(2) have "n < 2 ^ 53" by simp
    then have "(of_int n :: rat) < of_int (2 ^ 53)" by (simp only: of_int_less_iff)
    then have "of_int n * power_int 2 q < of_int (2 ^ 53) * power_int (2::rat) q"
      by (rule mult_strict_right_mono) simp
    then have "y < power_int 2 (q + 53)"
      using p2_add_nat [of q 53] by (simp add: y_def mult.commute)
    with ilog2_bounds(1) [OF ypos] have "power_int 2 (ilog2 y) < power_int (2::rat) (q + 53)"
      by (rule le_less_trans)
    then have "ilog2 y < q + 53" by (rule power_int_2_less_cancel)
    then have "ulp_exp y \<le> q" using ypos assms(3) by (simp add: ulp_exp_def)
    define u where "u = ulp_exp y"
    have le: "u \<le> q" unfolding u_def by fact
    define k where "k = nat (q - u)"
    have q: "q = u + int k" using le by (simp add: k_def)
    have pq: "power_int (2::rat) q = power_int 2 u * 2 ^ k"
      by (subst q) (rule p2_add_nat)
    have yu: "y = of_int (n * 2 ^ k) * power_int 2 u"
      by (simp add: y_def pq)
    then have "y / power_int 2 u = of_int (n * 2 ^ k)" by simp
    then have "rne (y / power_int 2 u) = n * 2 ^ k" by (simp only: rne_of_int)
    then have "round_nearest y = of_int (n * 2 ^ k) * power_int 2 u"
      by (simp only: round_nearest_def u_def)
    also have "\<dots> = y" by (simp only: yu)
    finally show ?thesis by (simp only: y_def)
  qed
qed

lemma round_nearest_idem: "round_nearest (round_nearest x) = round_nearest x"
proof -
  have pos: "round_nearest (round_nearest x) = round_nearest x" if "0 < x" for x
  proof -
    define n where "n = rne (x / power_int 2 (ulp_exp x))"
    have rn: "round_nearest x = of_int n * power_int 2 (ulp_exp x)"
      by (simp add: round_nearest_def n_def)
    have "0 \<le> n" unfolding n_def using that by (intro mant_nonneg) simp
    then consider "n = 0" | "0 < n" by linarith
    then show ?thesis
    proof cases
      case 1
      then show ?thesis by (simp add: rn round_nearest_0)
    next
      case 2
      moreover have "n \<le> 2 ^ 53" unfolding n_def using that by (rule mant_le)
      moreover have "- 1074 \<le> ulp_exp x" by (rule ulp_exp_ge)
      ultimately show ?thesis unfolding rn by (rule round_nearest_exact)
    qed
  qed
  consider "0 < x" | "x = 0" | "0 < - x" by linarith
  then show ?thesis
  proof cases
    case 1
    then show ?thesis by (rule pos)
  next
    case 2
    then show ?thesis by (simp add: round_nearest_0)
  next
    case 3
    then have "round_nearest (round_nearest (- x)) = round_nearest (- x)" by (rule pos)
    then show ?thesis by (simp add: round_nearest_minus)
  qed
qed

lemma round_double_idem:
  assumes "round_double x = Num y"
  shows "round_double y = Num y"
proof -
  from assms have y: "y = round_nearest x" and
    b: "\<not> 2 ^ 1024 \<le> round_nearest x" "\<not> round_nearest x \<le> - (2 ^ 1024)"
    by (auto simp: round_double_alt split: if_splits)
  have "round_nearest y = y" unfolding y by (rule round_nearest_idem)
  then show ?thesis using b y by (simp add: round_double_alt)
qed

lemma round_double_0: "round_double 0 = Num 0"
  by (simp add: round_double_def)

lemma round_double_mono:
  assumes "x \<le> y"
  shows "js_ge (round_double y) (round_double x)"
  using round_nearest_mono [OF assms] by (simp add: round_double_alt)

lemma round_nearest_int:
  assumes "\<bar>n\<bar> \<le> 2 ^ 53"
  shows "round_nearest (of_int n) = of_int n"
proof -
  have pos: "round_nearest (of_int m) = of_int m" if "0 < m" "m \<le> 2 ^ 53" for m
    using round_nearest_exact [OF that, of 0] by simp
  consider "0 < n" | "n = 0" | "0 < - n" by linarith
  then show ?thesis
  proof cases
    case 1
    then show ?thesis using assms by (intro pos) simp_all
  next
    case 2
    then show ?thesis by (simp add: round_nearest_0)
  next
    case 3
    then have "round_nearest (of_int (- n)) = of_int (- n)" using assms by (intro pos) simp_all
    then show ?thesis by (simp add: round_nearest_minus)
  qed
qed

lemma round_double_int:
  assumes "\<bar>n\<bar> \<le> 2 ^ 53"
  shows "round_double (of_int n) = Num (of_int n)"
proof -
  have "(of_int \<bar>n\<bar> :: rat) \<le> of_int (2 ^ 53)" using assms by (simp only: of_int_le_iff)
  then have "\<bar>of_int n :: rat\<bar> \<le> 2 ^ 53" by simp
  moreover have "(2::rat) ^ 53 < 2 ^ 1024" by simp
  ultimately have "\<bar>of_int n :: rat\<bar> < 2 ^ 1024" by (rule le_less_trans)
  then show ?thesis
    by (simp add: round_double_alt round_nearest_int [OF assms] abs_less_iff)
qed

lemma round_double_nearest:
  assumes lo: "2 ^ 52 \<le> x * 2 ^ j" and hi: "x * 2 ^ j < 2 ^ 53" and j: "j \<le> 1074"
    and near: "\<bar>x * 2 ^ j - of_int n\<bar> < 1 / 2 \<or> (\<bar>x * 2 ^ j - of_int n\<bar> = 1 / 2 \<and> even n)"
  shows "round_double x = Num (of_int n / 2 ^ j)"
proof -
  define q where "q = - int j"
  have pq: "power_int (2::rat) q = 1 / 2 ^ j"
    by (simp add: q_def power_int_def field_simps)
  have "(0::rat) < 2 ^ 52" by simp
  then have "0 < x * 2 ^ j" using lo by (rule less_le_trans)
  then have x: "0 < x" by (simp add: zero_less_mult_iff)
  have a52: "power_int (2::rat) (q + 52) = 2 ^ 52 / 2 ^ j"
    using p2_add_nat [of q 52] by (simp add: pq)
  have a53: "power_int (2::rat) (q + 52 + 1) = 2 ^ 53 / 2 ^ j"
    using p2_add_nat [of q 53] by (simp add: pq add.commute)
  have "2 ^ 52 / 2 ^ j \<le> x" using lo by (simp add: pos_divide_le_eq)
  then have "power_int 2 (q + 52) \<le> x" by (simp only: a52)
  moreover have "x < 2 ^ 53 / 2 ^ j" using hi by (simp add: pos_less_divide_eq)
  then have "x < power_int 2 (q + 52 + 1)" by (simp only: a53)
  ultimately have "ilog2 x = q + 52" by (rule ilog2_unique)
  then have u: "ulp_exp x = q" using x j by (simp add: ulp_exp_def q_def)
  have s: "x / power_int 2 q = x * 2 ^ j" by (simp add: pq)
  have "rne (x * 2 ^ j) = n" using near by (rule rne_unique)
  then have rn: "round_nearest x = of_int n / 2 ^ j"
    by (simp add: round_nearest_def u s pq)
  have "0 \<le> round_nearest x" using x by (intro round_nearest_nonneg) simp
  moreover have "round_nearest x \<le> power_int 2 (ulp_exp x + 53)"
    using x by (rule round_nearest_le)
  moreover have "power_int (2::rat) (ulp_exp x + 53) \<le> power_int 2 53"
    unfolding u q_def by (rule power_int_2_mono) simp
  moreover have "power_int (2::rat) 53 < power_int 2 1024"
    by (rule power_int_strict_increasing) simp_all
  ultimately have "0 \<le> round_nearest x" "round_nearest x < 2 ^ 1024"
    by (simp_all only: p2_1024)
  then show ?thesis by (simp add: round_double_alt rn)
qed

lemma round_double_numeral_int:
  "numeral k \<le> (2::int) ^ 53 \<Longrightarrow> round_double (numeral k) = Num (numeral k)"
  using round_double_int [of "numeral k"] by simp

section \<open>Properties of the tracker\<close>

text \<open>
  The layout values of a browser are integers, and so is the scroll offset on most
  screens. On integers below \<open>2^53\<close> the arithmetic of the handler is exact, and the test
  of the handler is membership of \<open>scrollY + 100\<close> in \<open>[top, top + height)\<close>.
\<close>

lemma in_section_int:
  fixes y top h :: int
  assumes "\<bar>y + 100\<bar> \<le> 2 ^ 53" and "\<bar>top + h\<bar> \<le> 2 ^ 53"
  shows "in_section (js_add (Num (of_int y)) (Num 100))
           \<lparr>offsetTop = Num (of_int top), offsetHeight = Num (of_int h)\<rparr>
         \<longleftrightarrow> top \<le> y + 100 \<and> y + 100 < top + h"
proof -
  have "js_add (Num (of_int y)) (Num 100) = round_double (of_int (y + 100))" by simp
  then have p: "js_add (Num (of_int y)) (Num 100) = Num (of_int (y + 100))"
    using round_double_int [OF assms(1)] by (simp only:)
  have "js_add (Num (of_int top)) (Num (of_int h)) = round_double (of_int (top + h))" by simp
  then have e: "js_add (Num (of_int top)) (Num (of_int h)) = Num (of_int (top + h))"
    using round_double_int [OF assms(2)] by (simp only:)
  show ?thesis
    unfolding in_section_def by (simp add: p e del: js_add.simps of_int_add)
qed


lemma scan_sections_member:
  "scan_sections doc probe xs = Some s \<Longrightarrow> s \<in> set xs"
  by (induction xs) (auto split: option.splits if_splits)

lemma handleScroll_cases:
  "handleScroll doc scrollY a = a \<or> handleScroll doc scrollY a \<in> set sections"
  by (auto simp: handleScroll_def Let_def split: option.splits dest: scan_sections_member)

lemma handleScroll_known:
  "a \<in> set sections \<Longrightarrow> handleScroll doc scrollY a \<in> set sections"
  using handleScroll_cases [of doc scrollY a] by auto

lemma session_known:
  "a \<in> set sections \<Longrightarrow> session a events \<in> set sections"
proof (induction events arbitrary: a)
  case Nil
  then show ?case by simp
next
  case (Cons e events)
  obtain doc scrollY where e: "e = (doc, scrollY)" by (cases e)
  have "handleScroll doc scrollY a \<in> set sections"
    using Cons.prems by (rule handleScroll_known)
  then show ?case
    using Cons.IH e by simp
qed

lemma scan_sections_test:
  "scan_sections doc probe xs =
     find (\<lambda>section. case doc section of None \<Rightarrow> False
             | Some el \<Rightarrow> js_ge probe (offsetTop el) \<and>
                 js_lt probe (js_add (offsetTop el) (offsetHeight el))) xs"
  by (induction xs) (simp_all add: in_section_def split: option.split)

lemma find_same: "(\<And>x. x \<in> set xs \<Longrightarrow> P x = Q x) \<Longrightarrow> find P xs = find Q xs"
  by (induction xs) simp_all

lemma scan_sections_layout:
  assumes "\<forall>section t h. layout section = Some (t, h) \<longrightarrow> \<bar>t + h\<bar> \<le> 2 ^ 53"
    and "\<bar>y + 100\<bar> \<le> 2 ^ 53"
  shows "scan_sections (layout_document layout) (js_add (Num (of_int y)) (Num 100)) xs =
     find (\<lambda>section. case layout section of None \<Rightarrow> False
             | Some (t, h) \<Rightarrow> t \<le> y + 100 \<and> y + 100 < t + h) xs"
proof (induction xs)
  case Nil
  show ?case by simp
next
  case (Cons x xs)
  show ?case
  proof (cases "layout x")
    case None
    then show ?thesis using Cons by (simp add: layout_document_def)
  next
    case (Some r)
    obtain t h where r: "r = (t, h)" by (cases r)
    have "\<bar>t + h\<bar> \<le> 2 ^ 53" using assms(1) Some r by blast
    with assms(2) have "in_section (js_add (Num (of_int y)) (Num 100))
           \<lparr>offsetTop = Num (of_int t), offsetHeight = Num (of_int h)\<rparr>
         \<longleftrightarrow> t \<le> y + 100 \<and> y + 100 < t + h"
      by (rule in_section_int)
    then show ?thesis using Cons Some r
      by (simp add: layout_document_def del: js_add.simps)
  qed
qed

text \<open>
  C1. The handler is a function of the layout, the scroll offset and the state. The state
  after it is the first section, in the order home, about, projects, contact, that has an
  element with \<open>scrollY + 100 >= offsetTop\<close> and \<open>scrollY + 100 < offsetTop + offsetHeight\<close>,
  in the arithmetic of the program; the sections after the first match are not looked at,
  and with no match the state stays. For a layout and a scroll offset that are integers
  below \<open>2^53\<close> this is the first section whose range \<open>[top, top + height)\<close> contains
  \<open>scrollY + 100\<close>, in exact arithmetic.
\<close>

theorem handleScroll_first_match:
  "handleScroll doc scrollY activeSection =
     (case find (\<lambda>section. case doc section of None \<Rightarrow> False
                  | Some el \<Rightarrow>
                      js_ge (js_add scrollY (Num 100)) (offsetTop el) \<and>
                      js_lt (js_add scrollY (Num 100)) (js_add (offsetTop el) (offsetHeight el)))
             [''home'', ''about'', ''projects'', ''contact''] of
        Some section \<Rightarrow> section
      | None \<Rightarrow> activeSection) \<and>
   ((\<forall>section t h. layout section = Some (t, h) \<longrightarrow> \<bar>t + h\<bar> \<le> 2 ^ 53) \<and>
    \<bar>y + 100\<bar> \<le> 2 ^ 53 \<longrightarrow>
    handleScroll (layout_document layout) (Num (of_int y)) activeSection =
     (case find (\<lambda>section. case layout section of None \<Rightarrow> False
                  | Some (t, h) \<Rightarrow> t \<le> y + 100 \<and> y + 100 < t + h)
             [''home'', ''about'', ''projects'', ''contact''] of
        Some section \<Rightarrow> section
      | None \<Rightarrow> activeSection))"
proof (intro conjI impI)
  show "handleScroll doc scrollY activeSection =
     (case find (\<lambda>section. case doc section of None \<Rightarrow> False
                  | Some el \<Rightarrow>
                      js_ge (js_add scrollY (Num 100)) (offsetTop el) \<and>
                      js_lt (js_add scrollY (Num 100)) (js_add (offsetTop el) (offsetHeight el)))
             [''home'', ''about'', ''projects'', ''contact''] of
        Some section \<Rightarrow> section
      | None \<Rightarrow> activeSection)"
    by (simp only: handleScroll_def Let_def scan_sections_test sections_def)
next
  assume a: "(\<forall>section t h. layout section = Some (t, h) \<longrightarrow> \<bar>t + h\<bar> \<le> 2 ^ 53) \<and>
    \<bar>y + 100\<bar> \<le> 2 ^ 53"
  then have 1: "\<forall>section t h. layout section = Some (t, h) \<longrightarrow> \<bar>t + h\<bar> \<le> 2 ^ 53"
    and 2: "\<bar>y + 100\<bar> \<le> 2 ^ 53" by blast+
  show "handleScroll (layout_document layout) (Num (of_int y)) activeSection =
     (case find (\<lambda>section. case layout section of None \<Rightarrow> False
                  | Some (t, h) \<Rightarrow> t \<le> y + 100 \<and> y + 100 < t + h)
             [''home'', ''about'', ''projects'', ''contact''] of
        Some section \<Rightarrow> section
      | None \<Rightarrow> activeSection)"
    by (simp only: handleScroll_def Let_def scan_sections_layout [OF 1 2] sections_def)
qed

theorem handleScroll_first_match_witness:
  "handleScroll
     (layout_document (map_of [(''home'', (0, 800)), (''about'', (800, 1200)),
                               (''projects'', (2000, 1500)), (''contact'', (3500, 600))]))
     (Num (of_int 1950)) ''home'' = ''projects'' \<and>
   handleScroll
     (layout_document (map_of [(''home'', (0, 800)), (''about'', (800, 1200)),
                               (''projects'', (2000, 1500)), (''contact'', (3500, 600))]))
     (Num (of_int 699)) ''contact'' = ''home'' \<and>
   handleScroll
     (layout_document (map_of [(''home'', (0, 800)), (''about'', (800, 1200)),
                               (''projects'', (2000, 1500)), (''contact'', (3500, 600))]))
     (Num (of_int 700)) ''contact'' = ''about''"
proof -
  let ?layout = "map_of [(''home'', (0::int, 800::int)), (''about'', (800, 1200)),
                               (''projects'', (2000, 1500)), (''contact'', (3500, 600))]"
  have h: "\<forall>section t h. ?layout section = Some (t, h) \<longrightarrow> \<bar>t + h\<bar> \<le> 2 ^ 53"
    by (auto split: if_splits)
  have a: "\<bar>(1950::int) + 100\<bar> \<le> 2 ^ 53" by simp
  have b: "\<bar>(699::int) + 100\<bar> \<le> 2 ^ 53" by simp
  have c: "\<bar>(700::int) + 100\<bar> \<le> 2 ^ 53" by simp
  have 1: "handleScroll (layout_document ?layout) (Num (of_int 1950)) ''home'' = ''projects''"
    using handleScroll_first_match [where layout = ?layout and y = 1950 and activeSection = "''home''",
        THEN conjunct2, THEN mp, OF conjI [OF h a]]
    by simp
  have 2: "handleScroll (layout_document ?layout) (Num (of_int 699)) ''contact'' = ''home''"
    using handleScroll_first_match [where layout = ?layout and y = 699 and activeSection = "''contact''",
        THEN conjunct2, THEN mp, OF conjI [OF h b]]
    by simp
  have 3: "handleScroll (layout_document ?layout) (Num (of_int 700)) ''contact'' = ''about''"
    using handleScroll_first_match [where layout = ?layout and y = 700 and activeSection = "''contact''",
        THEN conjunct2, THEN mp, OF conjI [OF h c]]
    by simp
  from 1 2 3 show ?thesis by blast
qed



text \<open>
  C8. The state starts at home, which is a known section; a scroll event leaves it as it
  was or sets it to a known section; so after every sequence of scroll events, whatever
  the layouts and offsets, it is one of home, about, projects, contact.
\<close>

theorem activeSection_invariant:
  "initialSection = ''home'' \<and>
   initialSection \<in> set sections \<and>
   (handleScroll doc scrollY activeSection = activeSection \<or>
    handleScroll doc scrollY activeSection \<in> set sections) \<and>
   session initialSection events \<in> {''home'', ''about'', ''projects'', ''contact''}"
proof -
  have init: "initialSection \<in> set sections"
    by (simp add: initialSection_def sections_def)
  have "session initialSection events \<in> set sections"
    by (rule session_known [OF init])
  then have "session initialSection events \<in> {''home'', ''about'', ''projects'', ''contact''}"
    by (simp add: sections_def)
  with init handleScroll_cases [of doc scrollY activeSection] show ?thesis
    by (simp add: initialSection_def)
qed

section \<open>Properties of the project lists\<close>

text \<open>
  C5. For every project list the featured and the other projects together are the
  projects, no project is in both, a project is featured exactly when its flag is set and
  other exactly when it is not, and no project is lost or repeated: the two lengths add
  up to the length of the list. The lists are new values; the input is not changed.
\<close>

theorem project_partition:
  "set (featuredProjects projects) \<union> set (otherProjects projects) = set projects \<and>
   set (featuredProjects projects) \<inter> set (otherProjects projects) = {} \<and>
   (p \<in> set (featuredProjects projects)) = (p \<in> set projects \<and> featured p) \<and>
   (p \<in> set (otherProjects projects)) = (p \<in> set projects \<and> \<not> featured p) \<and>
   length (featuredProjects projects) + length (otherProjects projects) = length projects"
  unfolding featuredProjects_def otherProjects_def
  by (auto simp: sum_length_filter_compl)

section \<open>Properties of the counter\<close>

lemma js_ge_trans: "js_ge a b \<Longrightarrow> js_ge b c \<Longrightarrow> js_ge a c"
  by (cases a; cases b; cases c) simp_all

lemma js_ge_refl: "a \<noteq> NaN \<Longrightarrow> js_ge a a"
  by (cases a) simp_all

lemma period_eq: "js_div (Num 2000) (Num 16) = Num 125"
  by (simp add: round_double_numeral_int)

lemma step_entry:
  "step s (Intersection entering) =
     (if isInView s \<or> \<not> entering then s else effect (s\<lparr>isInView := True\<rparr>))"
  by (auto simp: rerender_def useInView_def cleanup_def Let_def)

lemma started_eq: "started v = sampling v (Num 0) (Num 0) True"
  by (simp add: started_def step_entry mount_def effect_def sampling_def
      del: js_div.simps step.simps)

lemma step_sampling_set:
  "step (sampling v a c True) (Interval 0) =
     (if js_ge (js_add a (js_div v (Num 125))) v
      then sampling v (js_add a (js_div v (Num 125))) v False
      else sampling v (js_add a (js_div v (Num 125)))
             (js_floor (js_add a (js_div v (Num 125)))) True)"
  unfolding period_eq [symmetric]
  by (simp add: sampling_def interval_callback_def Let_def del: js_div.simps)

lemma step_sampling_cleared:
  "step (sampling v a c False) (Interval 0) = sampling v a c False"
  by (simp add: sampling_def)

declare step.simps [simp del]

lemma ticks_0: "ticks 0 s = s"
  by (simp add: ticks_def)

lemma ticks_Suc: "ticks (Suc n) s = step (ticks n s) (Interval 0)"
  by (simp add: ticks_def)

lemma ticks_add: "ticks (m + n) s = ticks m (ticks n s)"
  by (simp add: ticks_def funpow_add)

lemma ticks_cleared: "ticks n (sampling v a c False) = sampling v a c False"
  by (induction n) (simp_all add: ticks_0 ticks_Suc step_sampling_cleared)

lemma accumulator_0: "accumulator v 0 = Num 0"
  by (simp add: accumulator_def)

lemma accumulator_Suc:
  "accumulator v (Suc k) = js_add (accumulator v k) (js_div v (Num 125))"
  unfolding period_eq [symmetric] by (simp add: accumulator_def del: js_div.simps)

lemma sampling_fields:
  "count (sampling v a c r) = c"
  "effects (sampling v a c r) =
     [\<lparr>start = a, end_value = v, increment = js_div v (Num 125), timer = r\<rparr>]"
  "isInView (sampling v a c r)"
  "value_prop (sampling v a c r) = v"
  unfolding period_eq [symmetric] by (simp_all add: sampling_def del: js_div.simps)

lemma ticks_below:
  assumes "\<forall>k. 1 \<le> k \<and> k \<le> n \<longrightarrow> \<not> js_ge (accumulator v k) v"
  shows "ticks n (started v) =
     sampling v (accumulator v n) (if n = 0 then Num 0 else js_floor (accumulator v n)) True"
  using assms
proof (induction n)
  case 0
  then show ?case by (simp add: ticks_0 started_eq accumulator_0)
next
  case (Suc n)
  have "\<forall>k. 1 \<le> k \<and> k \<le> n \<longrightarrow> \<not> js_ge (accumulator v k) v" using Suc.prems by simp
  then have IH: "ticks n (started v) =
     sampling v (accumulator v n) (if n = 0 then Num 0 else js_floor (accumulator v n)) True"
    by (rule Suc.IH)
  have "\<not> js_ge (accumulator v (Suc n)) v" using Suc.prems by simp
  then show ?case
    by (simp add: ticks_Suc IH step_sampling_set accumulator_Suc [symmetric])
qed

lemma ticks_reached:
  assumes "\<forall>k. 1 \<le> k \<and> k \<le> n \<longrightarrow> \<not> js_ge (accumulator v k) v"
    and "js_ge (accumulator v (Suc n)) v"
  shows "ticks (Suc n + m) (started v) = sampling v (accumulator v (Suc n)) v False"
proof -
  have "ticks (Suc n) (started v) = sampling v (accumulator v (Suc n)) v False"
    using assms(2)
    by (simp add: ticks_Suc ticks_below [OF assms(1)] step_sampling_set accumulator_Suc [symmetric]
       )
  then show ?thesis
    using ticks_add [of m "Suc n" "started v"] by (simp add: ticks_cleared add.commute)
qed

subsection \<open>The ramp to 10\<close>

text \<open>
  The roundings met on the way from 0 to 10: the increment, the number nearest to 10/125,
  and then each sum of an accumulator and the increment with the number it rounds to.
\<close>

lemma ramp10:
  "round_double (2 / 25) = Num (5764607523034235 / 72057594037927936)"
  "round_double (5764607523034235 / 72057594037927936) = Num (5764607523034235 / 72057594037927936)"
  "round_double (5764607523034235 / 36028797018963968) = Num (5764607523034235 / 36028797018963968)"
  "round_double (17293822569102705 / 72057594037927936) = Num (1080863910568919 / 4503599627370496)"
  "round_double (23058430092136939 / 72057594037927936) = Num (5764607523034235 / 18014398509481984)"
  "round_double (28823037615171175 / 72057594037927936) = Num (3602879701896397 / 9007199254740992)"
  "round_double (34587645138205411 / 72057594037927936) = Num (8646911284551353 / 18014398509481984)"
  "round_double (40352252661239647 / 72057594037927936) = Num (1261007895663739 / 2251799813685248)"
  "round_double (46116860184273883 / 72057594037927936) = Num (5764607523034235 / 9007199254740992)"
  "round_double (51881467707308115 / 72057594037927936) = Num (3242591731706757 / 4503599627370496)"
  "round_double (57646075230342347 / 72057594037927936) = Num (7205759403792793 / 9007199254740992)"
  "round_double (63410682753376579 / 72057594037927936) = Num (990791918021509 / 1125899906842624)"
  "round_double (69175290276410811 / 72057594037927936) = Num (8646911284551351 / 9007199254740992)"
  "round_double (74939897799445043 / 72057594037927936) = Num (4683743612465315 / 4503599627370496)"
  "round_double (80704505322479275 / 72057594037927936) = Num (5044031582654955 / 4503599627370496)"
  "round_double (86469112845513515 / 72057594037927936) = Num (5404319552844595 / 4503599627370496)"
  "round_double (92233720368547755 / 72057594037927936) = Num (5764607523034235 / 4503599627370496)"
  "round_double (97998327891581995 / 72057594037927936) = Num (6124895493223875 / 4503599627370496)"
  "round_double (103762935414616235 / 72057594037927936) = Num (6485183463413515 / 4503599627370496)"
  "round_double (109527542937650475 / 72057594037927936) = Num (6845471433603155 / 4503599627370496)"
  "round_double (115292150460684715 / 72057594037927936) = Num (7205759403792795 / 4503599627370496)"
  "round_double (121056757983718955 / 72057594037927936) = Num (7566047373982435 / 4503599627370496)"
  "round_double (126821365506753195 / 72057594037927936) = Num (7926335344172075 / 4503599627370496)"
  "round_double (132585973029787435 / 72057594037927936) = Num (8286623314361715 / 4503599627370496)"
  "round_double (138350580552821675 / 72057594037927936) = Num (8646911284551355 / 4503599627370496)"
  "round_double (144115188075855915 / 72057594037927936) = Num (4503599627370497 / 2251799813685248)"
  "round_double (149879795598890139 / 72057594037927936) = Num (4683743612465317 / 2251799813685248)"
  "round_double (155644403121924379 / 72057594037927936) = Num (4863887597560137 / 2251799813685248)"
  "round_double (161409010644958619 / 72057594037927936) = Num (5044031582654957 / 2251799813685248)"
  "round_double (167173618167992859 / 72057594037927936) = Num (5224175567749777 / 2251799813685248)"
  "round_double (172938225691027099 / 72057594037927936) = Num (5404319552844597 / 2251799813685248)"
  "round_double (178702833214061339 / 72057594037927936) = Num (5584463537939417 / 2251799813685248)"
  "round_double (184467440737095579 / 72057594037927936) = Num (5764607523034237 / 2251799813685248)"
  "round_double (190232048260129819 / 72057594037927936) = Num (5944751508129057 / 2251799813685248)"
  "round_double (195996655783164059 / 72057594037927936) = Num (6124895493223877 / 2251799813685248)"
  "round_double (201761263306198299 / 72057594037927936) = Num (6305039478318697 / 2251799813685248)"
  "round_double (207525870829232539 / 72057594037927936) = Num (6485183463413517 / 2251799813685248)"
  "round_double (213290478352266779 / 72057594037927936) = Num (6665327448508337 / 2251799813685248)"
  "round_double (219055085875301019 / 72057594037927936) = Num (6845471433603157 / 2251799813685248)"
  "round_double (224819693398335259 / 72057594037927936) = Num (7025615418697977 / 2251799813685248)"
  "round_double (230584300921369499 / 72057594037927936) = Num (7205759403792797 / 2251799813685248)"
  "round_double (236348908444403739 / 72057594037927936) = Num (7385903388887617 / 2251799813685248)"
  "round_double (242113515967437979 / 72057594037927936) = Num (7566047373982437 / 2251799813685248)"
  "round_double (247878123490472219 / 72057594037927936) = Num (7746191359077257 / 2251799813685248)"
  "round_double (253642731013506459 / 72057594037927936) = Num (7926335344172077 / 2251799813685248)"
  "round_double (259407338536540699 / 72057594037927936) = Num (8106479329266897 / 2251799813685248)"
  "round_double (265171946059574939 / 72057594037927936) = Num (8286623314361717 / 2251799813685248)"
  "round_double (270936553582609179 / 72057594037927936) = Num (8466767299456537 / 2251799813685248)"
  "round_double (276701161105643419 / 72057594037927936) = Num (8646911284551357 / 2251799813685248)"
  "round_double (282465768628677659 / 72057594037927936) = Num (8827055269646177 / 2251799813685248)"
  "round_double (288230376151711899 / 72057594037927936) = Num (2251799813685249 / 562949953421312)"
  "round_double (293994983674746107 / 72057594037927936) = Num (1148417904979477 / 281474976710656)"
  "round_double (299759591197780347 / 72057594037927936) = Num (2341871806232659 / 562949953421312)"
  "round_double (305524198720814587 / 72057594037927936) = Num (596726950626591 / 140737488355328)"
  "round_double (311288806243848827 / 72057594037927936) = Num (2431943798780069 / 562949953421312)"
  "round_double (317053413766883067 / 72057594037927936) = Num (1238489897526887 / 281474976710656)"
  "round_double (322818021289917307 / 72057594037927936) = Num (2522015791327479 / 562949953421312)"
  "round_double (328582628812951547 / 72057594037927936) = Num (80220368362537 / 17592186044416)"
  "round_double (334347236335985787 / 72057594037927936) = Num (2612087783874889 / 562949953421312)"
  "round_double (340111843859020027 / 72057594037927936) = Num (1328561890074297 / 281474976710656)"
  "round_double (345876451382054267 / 72057594037927936) = Num (2702159776422299 / 562949953421312)"
  "round_double (351641058905088507 / 72057594037927936) = Num (686798943174001 / 140737488355328)"
  "round_double (357405666428122747 / 72057594037927936) = Num (2792231768969709 / 562949953421312)"
  "round_double (363170273951156987 / 72057594037927936) = Num (1418633882621707 / 281474976710656)"
  "round_double (368934881474191227 / 72057594037927936) = Num (2882303761517119 / 562949953421312)"
  "round_double (374699488997225467 / 72057594037927936) = Num (365917469723853 / 70368744177664)"
  "round_double (380464096520259707 / 72057594037927936) = Num (2972375754064529 / 562949953421312)"
  "round_double (386228704043293947 / 72057594037927936) = Num (1508705875169117 / 281474976710656)"
  "round_double (391993311566328187 / 72057594037927936) = Num (3062447746611939 / 562949953421312)"
  "round_double (397757919089362427 / 72057594037927936) = Num (776870935721411 / 140737488355328)"
  "round_double (403522526612396667 / 72057594037927936) = Num (3152519739159349 / 562949953421312)"
  "round_double (409287134135430907 / 72057594037927936) = Num (1598777867716527 / 281474976710656)"
  "round_double (415051741658465147 / 72057594037927936) = Num (3242591731706759 / 562949953421312)"
  "round_double (420816349181499387 / 72057594037927936) = Num (205476732998779 / 35184372088832)"
  "round_double (426580956704533627 / 72057594037927936) = Num (3332663724254169 / 562949953421312)"
  "round_double (432345564227567867 / 72057594037927936) = Num (1688849860263937 / 281474976710656)"
  "round_double (438110171750602107 / 72057594037927936) = Num (3422735716801579 / 562949953421312)"
  "round_double (443874779273636347 / 72057594037927936) = Num (866942928268821 / 140737488355328)"
  "round_double (449639386796670587 / 72057594037927936) = Num (3512807709348989 / 562949953421312)"
  "round_double (455403994319704827 / 72057594037927936) = Num (1778921852811347 / 281474976710656)"
  "round_double (461168601842739067 / 72057594037927936) = Num (3602879701896399 / 562949953421312)"
  "round_double (466933209365773307 / 72057594037927936) = Num (455989462271263 / 70368744177664)"
  "round_double (472697816888807547 / 72057594037927936) = Num (3692951694443809 / 562949953421312)"
  "round_double (478462424411841787 / 72057594037927936) = Num (1868993845358757 / 281474976710656)"
  "round_double (484227031934876027 / 72057594037927936) = Num (3783023686991219 / 562949953421312)"
  "round_double (489991639457910267 / 72057594037927936) = Num (957014920816231 / 140737488355328)"
  "round_double (495756246980944507 / 72057594037927936) = Num (3873095679538629 / 562949953421312)"
  "round_double (501520854503978747 / 72057594037927936) = Num (1959065837906167 / 281474976710656)"
  "round_double (507285462027012987 / 72057594037927936) = Num (3963167672086039 / 562949953421312)"
  "round_double (513050069550047227 / 72057594037927936) = Num (62628182318121 / 8796093022208)"
  "round_double (518814677073081467 / 72057594037927936) = Num (4053239664633449 / 562949953421312)"
  "round_double (524579284596115707 / 72057594037927936) = Num (2049137830453577 / 281474976710656)"
  "round_double (530343892119149947 / 72057594037927936) = Num (4143311657180859 / 562949953421312)"
  "round_double (536108499642184187 / 72057594037927936) = Num (1047086913363641 / 140737488355328)"
  "round_double (541873107165218427 / 72057594037927936) = Num (4233383649728269 / 562949953421312)"
  "round_double (547637714688252667 / 72057594037927936) = Num (2139209823000987 / 281474976710656)"
  "round_double (553402322211286907 / 72057594037927936) = Num (4323455642275679 / 562949953421312)"
  "round_double (559166929734321147 / 72057594037927936) = Num (546061454818673 / 70368744177664)"
  "round_double (564931537257355387 / 72057594037927936) = Num (4413527634823089 / 562949953421312)"
  "round_double (570696144780389627 / 72057594037927936) = Num (2229281815548397 / 281474976710656)"
  "round_double (576460752303423867 / 72057594037927936) = Num (4503599627370499 / 562949953421312)"
  "round_double (582225359826458107 / 72057594037927936) = Num (1137158905911051 / 140737488355328)"
  "round_double (587989967349492347 / 72057594037927936) = Num (4593671619917909 / 562949953421312)"
  "round_double (593754574872526587 / 72057594037927936) = Num (2319353808095807 / 281474976710656)"
  "round_double (599519182395560827 / 72057594037927936) = Num (4683743612465319 / 562949953421312)"
  "round_double (605283789918595067 / 72057594037927936) = Num (295548725546189 / 35184372088832)"
  "round_double (611048397441629307 / 72057594037927936) = Num (4773815605012729 / 562949953421312)"
  "round_double (616813004964663547 / 72057594037927936) = Num (2409425800643217 / 281474976710656)"
  "round_double (622577612487697787 / 72057594037927936) = Num (4863887597560139 / 562949953421312)"
  "round_double (628342220010732027 / 72057594037927936) = Num (1227230898458461 / 140737488355328)"
  "round_double (634106827533766267 / 72057594037927936) = Num (4953959590107549 / 562949953421312)"
  "round_double (639871435056800507 / 72057594037927936) = Num (2499497793190627 / 281474976710656)"
  "round_double (645636042579834747 / 72057594037927936) = Num (5044031582654959 / 562949953421312)"
  "round_double (651400650102868987 / 72057594037927936) = Num (636133447366083 / 70368744177664)"
  "round_double (657165257625903227 / 72057594037927936) = Num (5134103575202369 / 562949953421312)"
  "round_double (662929865148937467 / 72057594037927936) = Num (2589569785738037 / 281474976710656)"
  "round_double (668694472671971707 / 72057594037927936) = Num (5224175567749779 / 562949953421312)"
  "round_double (674459080195005947 / 72057594037927936) = Num (1317302891005871 / 140737488355328)"
  "round_double (680223687718040187 / 72057594037927936) = Num (5314247560297189 / 562949953421312)"
  "round_double (685988295241074427 / 72057594037927936) = Num (2679641778285447 / 281474976710656)"
  "round_double (691752902764108667 / 72057594037927936) = Num (5404319552844599 / 562949953421312)"
  "round_double (697517510287142907 / 72057594037927936) = Num (170292360909947 / 17592186044416)"
  "round_double (703282117810177147 / 72057594037927936) = Num (5494391545392009 / 562949953421312)"
  "round_double (709046725333211387 / 72057594037927936) = Num (2769713770832857 / 281474976710656)"
  "round_double (714811332856245627 / 72057594037927936) = Num (5584463537939419 / 562949953421312)"
  "round_double (720575940379279867 / 72057594037927936) = Num (1407374883553281 / 140737488355328)"
proof -
  show "round_double (2 / 25) = Num (5764607523034235 / 72057594037927936)"
    using round_double_nearest [of "2 / 25" 56 5764607523034235] by simp
  show "round_double (5764607523034235 / 72057594037927936) = Num (5764607523034235 / 72057594037927936)"
    using round_double_nearest [of "5764607523034235 / 72057594037927936" 56 5764607523034235] by simp
  show "round_double (5764607523034235 / 36028797018963968) = Num (5764607523034235 / 36028797018963968)"
    using round_double_nearest [of "5764607523034235 / 36028797018963968" 55 5764607523034235] by simp
  show "round_double (17293822569102705 / 72057594037927936) = Num (1080863910568919 / 4503599627370496)"
    using round_double_nearest [of "17293822569102705 / 72057594037927936" 55 8646911284551352] by simp
  show "round_double (23058430092136939 / 72057594037927936) = Num (5764607523034235 / 18014398509481984)"
    using round_double_nearest [of "23058430092136939 / 72057594037927936" 54 5764607523034235] by simp
  show "round_double (28823037615171175 / 72057594037927936) = Num (3602879701896397 / 9007199254740992)"
    using round_double_nearest [of "28823037615171175 / 72057594037927936" 54 7205759403792794] by simp
  show "round_double (34587645138205411 / 72057594037927936) = Num (8646911284551353 / 18014398509481984)"
    using round_double_nearest [of "34587645138205411 / 72057594037927936" 54 8646911284551353] by simp
  show "round_double (40352252661239647 / 72057594037927936) = Num (1261007895663739 / 2251799813685248)"
    using round_double_nearest [of "40352252661239647 / 72057594037927936" 53 5044031582654956] by simp
  show "round_double (46116860184273883 / 72057594037927936) = Num (5764607523034235 / 9007199254740992)"
    using round_double_nearest [of "46116860184273883 / 72057594037927936" 53 5764607523034235] by simp
  show "round_double (51881467707308115 / 72057594037927936) = Num (3242591731706757 / 4503599627370496)"
    using round_double_nearest [of "51881467707308115 / 72057594037927936" 53 6485183463413514] by simp
  show "round_double (57646075230342347 / 72057594037927936) = Num (7205759403792793 / 9007199254740992)"
    using round_double_nearest [of "57646075230342347 / 72057594037927936" 53 7205759403792793] by simp
  show "round_double (63410682753376579 / 72057594037927936) = Num (990791918021509 / 1125899906842624)"
    using round_double_nearest [of "63410682753376579 / 72057594037927936" 53 7926335344172072] by simp
  show "round_double (69175290276410811 / 72057594037927936) = Num (8646911284551351 / 9007199254740992)"
    using round_double_nearest [of "69175290276410811 / 72057594037927936" 53 8646911284551351] by simp
  show "round_double (74939897799445043 / 72057594037927936) = Num (4683743612465315 / 4503599627370496)"
    using round_double_nearest [of "74939897799445043 / 72057594037927936" 52 4683743612465315] by simp
  show "round_double (80704505322479275 / 72057594037927936) = Num (5044031582654955 / 4503599627370496)"
    using round_double_nearest [of "80704505322479275 / 72057594037927936" 52 5044031582654955] by simp
  show "round_double (86469112845513515 / 72057594037927936) = Num (5404319552844595 / 4503599627370496)"
    using round_double_nearest [of "86469112845513515 / 72057594037927936" 52 5404319552844595] by simp
  show "round_double (92233720368547755 / 72057594037927936) = Num (5764607523034235 / 4503599627370496)"
    using round_double_nearest [of "92233720368547755 / 72057594037927936" 52 5764607523034235] by simp
  show "round_double (97998327891581995 / 72057594037927936) = Num (6124895493223875 / 4503599627370496)"
    using round_double_nearest [of "97998327891581995 / 72057594037927936" 52 6124895493223875] by simp
  show "round_double (103762935414616235 / 72057594037927936) = Num (6485183463413515 / 4503599627370496)"
    using round_double_nearest [of "103762935414616235 / 72057594037927936" 52 6485183463413515] by simp
  show "round_double (109527542937650475 / 72057594037927936) = Num (6845471433603155 / 4503599627370496)"
    using round_double_nearest [of "109527542937650475 / 72057594037927936" 52 6845471433603155] by simp
  show "round_double (115292150460684715 / 72057594037927936) = Num (7205759403792795 / 4503599627370496)"
    using round_double_nearest [of "115292150460684715 / 72057594037927936" 52 7205759403792795] by simp
  show "round_double (121056757983718955 / 72057594037927936) = Num (7566047373982435 / 4503599627370496)"
    using round_double_nearest [of "121056757983718955 / 72057594037927936" 52 7566047373982435] by simp
  show "round_double (126821365506753195 / 72057594037927936) = Num (7926335344172075 / 4503599627370496)"
    using round_double_nearest [of "126821365506753195 / 72057594037927936" 52 7926335344172075] by simp
  show "round_double (132585973029787435 / 72057594037927936) = Num (8286623314361715 / 4503599627370496)"
    using round_double_nearest [of "132585973029787435 / 72057594037927936" 52 8286623314361715] by simp
  show "round_double (138350580552821675 / 72057594037927936) = Num (8646911284551355 / 4503599627370496)"
    using round_double_nearest [of "138350580552821675 / 72057594037927936" 52 8646911284551355] by simp
  show "round_double (144115188075855915 / 72057594037927936) = Num (4503599627370497 / 2251799813685248)"
    using round_double_nearest [of "144115188075855915 / 72057594037927936" 51 4503599627370497] by simp
  show "round_double (149879795598890139 / 72057594037927936) = Num (4683743612465317 / 2251799813685248)"
    using round_double_nearest [of "149879795598890139 / 72057594037927936" 51 4683743612465317] by simp
  show "round_double (155644403121924379 / 72057594037927936) = Num (4863887597560137 / 2251799813685248)"
    using round_double_nearest [of "155644403121924379 / 72057594037927936" 51 4863887597560137] by simp
  show "round_double (161409010644958619 / 72057594037927936) = Num (5044031582654957 / 2251799813685248)"
    using round_double_nearest [of "161409010644958619 / 72057594037927936" 51 5044031582654957] by simp
  show "round_double (167173618167992859 / 72057594037927936) = Num (5224175567749777 / 2251799813685248)"
    using round_double_nearest [of "167173618167992859 / 72057594037927936" 51 5224175567749777] by simp
  show "round_double (172938225691027099 / 72057594037927936) = Num (5404319552844597 / 2251799813685248)"
    using round_double_nearest [of "172938225691027099 / 72057594037927936" 51 5404319552844597] by simp
  show "round_double (178702833214061339 / 72057594037927936) = Num (5584463537939417 / 2251799813685248)"
    using round_double_nearest [of "178702833214061339 / 72057594037927936" 51 5584463537939417] by simp
  show "round_double (184467440737095579 / 72057594037927936) = Num (5764607523034237 / 2251799813685248)"
    using round_double_nearest [of "184467440737095579 / 72057594037927936" 51 5764607523034237] by simp
  show "round_double (190232048260129819 / 72057594037927936) = Num (5944751508129057 / 2251799813685248)"
    using round_double_nearest [of "190232048260129819 / 72057594037927936" 51 5944751508129057] by simp
  show "round_double (195996655783164059 / 72057594037927936) = Num (6124895493223877 / 2251799813685248)"
    using round_double_nearest [of "195996655783164059 / 72057594037927936" 51 6124895493223877] by simp
  show "round_double (201761263306198299 / 72057594037927936) = Num (6305039478318697 / 2251799813685248)"
    using round_double_nearest [of "201761263306198299 / 72057594037927936" 51 6305039478318697] by simp
  show "round_double (207525870829232539 / 72057594037927936) = Num (6485183463413517 / 2251799813685248)"
    using round_double_nearest [of "207525870829232539 / 72057594037927936" 51 6485183463413517] by simp
  show "round_double (213290478352266779 / 72057594037927936) = Num (6665327448508337 / 2251799813685248)"
    using round_double_nearest [of "213290478352266779 / 72057594037927936" 51 6665327448508337] by simp
  show "round_double (219055085875301019 / 72057594037927936) = Num (6845471433603157 / 2251799813685248)"
    using round_double_nearest [of "219055085875301019 / 72057594037927936" 51 6845471433603157] by simp
  show "round_double (224819693398335259 / 72057594037927936) = Num (7025615418697977 / 2251799813685248)"
    using round_double_nearest [of "224819693398335259 / 72057594037927936" 51 7025615418697977] by simp
  show "round_double (230584300921369499 / 72057594037927936) = Num (7205759403792797 / 2251799813685248)"
    using round_double_nearest [of "230584300921369499 / 72057594037927936" 51 7205759403792797] by simp
  show "round_double (236348908444403739 / 72057594037927936) = Num (7385903388887617 / 2251799813685248)"
    using round_double_nearest [of "236348908444403739 / 72057594037927936" 51 7385903388887617] by simp
  show "round_double (242113515967437979 / 72057594037927936) = Num (7566047373982437 / 2251799813685248)"
    using round_double_nearest [of "242113515967437979 / 72057594037927936" 51 7566047373982437] by simp
  show "round_double (247878123490472219 / 72057594037927936) = Num (7746191359077257 / 2251799813685248)"
    using round_double_nearest [of "247878123490472219 / 72057594037927936" 51 7746191359077257] by simp
  show "round_double (253642731013506459 / 72057594037927936) = Num (7926335344172077 / 2251799813685248)"
    using round_double_nearest [of "253642731013506459 / 72057594037927936" 51 7926335344172077] by simp
  show "round_double (259407338536540699 / 72057594037927936) = Num (8106479329266897 / 2251799813685248)"
    using round_double_nearest [of "259407338536540699 / 72057594037927936" 51 8106479329266897] by simp
  show "round_double (265171946059574939 / 72057594037927936) = Num (8286623314361717 / 2251799813685248)"
    using round_double_nearest [of "265171946059574939 / 72057594037927936" 51 8286623314361717] by simp
  show "round_double (270936553582609179 / 72057594037927936) = Num (8466767299456537 / 2251799813685248)"
    using round_double_nearest [of "270936553582609179 / 72057594037927936" 51 8466767299456537] by simp
  show "round_double (276701161105643419 / 72057594037927936) = Num (8646911284551357 / 2251799813685248)"
    using round_double_nearest [of "276701161105643419 / 72057594037927936" 51 8646911284551357] by simp
  show "round_double (282465768628677659 / 72057594037927936) = Num (8827055269646177 / 2251799813685248)"
    using round_double_nearest [of "282465768628677659 / 72057594037927936" 51 8827055269646177] by simp
  show "round_double (288230376151711899 / 72057594037927936) = Num (2251799813685249 / 562949953421312)"
    using round_double_nearest [of "288230376151711899 / 72057594037927936" 50 4503599627370498] by simp
  show "round_double (293994983674746107 / 72057594037927936) = Num (1148417904979477 / 281474976710656)"
    using round_double_nearest [of "293994983674746107 / 72057594037927936" 50 4593671619917908] by simp
  show "round_double (299759591197780347 / 72057594037927936) = Num (2341871806232659 / 562949953421312)"
    using round_double_nearest [of "299759591197780347 / 72057594037927936" 50 4683743612465318] by simp
  show "round_double (305524198720814587 / 72057594037927936) = Num (596726950626591 / 140737488355328)"
    using round_double_nearest [of "305524198720814587 / 72057594037927936" 50 4773815605012728] by simp
  show "round_double (311288806243848827 / 72057594037927936) = Num (2431943798780069 / 562949953421312)"
    using round_double_nearest [of "311288806243848827 / 72057594037927936" 50 4863887597560138] by simp
  show "round_double (317053413766883067 / 72057594037927936) = Num (1238489897526887 / 281474976710656)"
    using round_double_nearest [of "317053413766883067 / 72057594037927936" 50 4953959590107548] by simp
  show "round_double (322818021289917307 / 72057594037927936) = Num (2522015791327479 / 562949953421312)"
    using round_double_nearest [of "322818021289917307 / 72057594037927936" 50 5044031582654958] by simp
  show "round_double (328582628812951547 / 72057594037927936) = Num (80220368362537 / 17592186044416)"
    using round_double_nearest [of "328582628812951547 / 72057594037927936" 50 5134103575202368] by simp
  show "round_double (334347236335985787 / 72057594037927936) = Num (2612087783874889 / 562949953421312)"
    using round_double_nearest [of "334347236335985787 / 72057594037927936" 50 5224175567749778] by simp
  show "round_double (340111843859020027 / 72057594037927936) = Num (1328561890074297 / 281474976710656)"
    using round_double_nearest [of "340111843859020027 / 72057594037927936" 50 5314247560297188] by simp
  show "round_double (345876451382054267 / 72057594037927936) = Num (2702159776422299 / 562949953421312)"
    using round_double_nearest [of "345876451382054267 / 72057594037927936" 50 5404319552844598] by simp
  show "round_double (351641058905088507 / 72057594037927936) = Num (686798943174001 / 140737488355328)"
    using round_double_nearest [of "351641058905088507 / 72057594037927936" 50 5494391545392008] by simp
  show "round_double (357405666428122747 / 72057594037927936) = Num (2792231768969709 / 562949953421312)"
    using round_double_nearest [of "357405666428122747 / 72057594037927936" 50 5584463537939418] by simp
  show "round_double (363170273951156987 / 72057594037927936) = Num (1418633882621707 / 281474976710656)"
    using round_double_nearest [of "363170273951156987 / 72057594037927936" 50 5674535530486828] by simp
  show "round_double (368934881474191227 / 72057594037927936) = Num (2882303761517119 / 562949953421312)"
    using round_double_nearest [of "368934881474191227 / 72057594037927936" 50 5764607523034238] by simp
  show "round_double (374699488997225467 / 72057594037927936) = Num (365917469723853 / 70368744177664)"
    using round_double_nearest [of "374699488997225467 / 72057594037927936" 50 5854679515581648] by simp
  show "round_double (380464096520259707 / 72057594037927936) = Num (2972375754064529 / 562949953421312)"
    using round_double_nearest [of "380464096520259707 / 72057594037927936" 50 5944751508129058] by simp
  show "round_double (386228704043293947 / 72057594037927936) = Num (1508705875169117 / 281474976710656)"
    using round_double_nearest [of "386228704043293947 / 72057594037927936" 50 6034823500676468] by simp
  show "round_double (391993311566328187 / 72057594037927936) = Num (3062447746611939 / 562949953421312)"
    using round_double_nearest [of "391993311566328187 / 72057594037927936" 50 6124895493223878] by simp
  show "round_double (397757919089362427 / 72057594037927936) = Num (776870935721411 / 140737488355328)"
    using round_double_nearest [of "397757919089362427 / 72057594037927936" 50 6214967485771288] by simp
  show "round_double (403522526612396667 / 72057594037927936) = Num (3152519739159349 / 562949953421312)"
    using round_double_nearest [of "403522526612396667 / 72057594037927936" 50 6305039478318698] by simp
  show "round_double (409287134135430907 / 72057594037927936) = Num (1598777867716527 / 281474976710656)"
    using round_double_nearest [of "409287134135430907 / 72057594037927936" 50 6395111470866108] by simp
  show "round_double (415051741658465147 / 72057594037927936) = Num (3242591731706759 / 562949953421312)"
    using round_double_nearest [of "415051741658465147 / 72057594037927936" 50 6485183463413518] by simp
  show "round_double (420816349181499387 / 72057594037927936) = Num (205476732998779 / 35184372088832)"
    using round_double_nearest [of "420816349181499387 / 72057594037927936" 50 6575255455960928] by simp
  show "round_double (426580956704533627 / 72057594037927936) = Num (3332663724254169 / 562949953421312)"
    using round_double_nearest [of "426580956704533627 / 72057594037927936" 50 6665327448508338] by simp
  show "round_double (432345564227567867 / 72057594037927936) = Num (1688849860263937 / 281474976710656)"
    using round_double_nearest [of "432345564227567867 / 72057594037927936" 50 6755399441055748] by simp
  show "round_double (438110171750602107 / 72057594037927936) = Num (3422735716801579 / 562949953421312)"
    using round_double_nearest [of "438110171750602107 / 72057594037927936" 50 6845471433603158] by simp
  show "round_double (443874779273636347 / 72057594037927936) = Num (866942928268821 / 140737488355328)"
    using round_double_nearest [of "443874779273636347 / 72057594037927936" 50 6935543426150568] by simp
  show "round_double (449639386796670587 / 72057594037927936) = Num (3512807709348989 / 562949953421312)"
    using round_double_nearest [of "449639386796670587 / 72057594037927936" 50 7025615418697978] by simp
  show "round_double (455403994319704827 / 72057594037927936) = Num (1778921852811347 / 281474976710656)"
    using round_double_nearest [of "455403994319704827 / 72057594037927936" 50 7115687411245388] by simp
  show "round_double (461168601842739067 / 72057594037927936) = Num (3602879701896399 / 562949953421312)"
    using round_double_nearest [of "461168601842739067 / 72057594037927936" 50 7205759403792798] by simp
  show "round_double (466933209365773307 / 72057594037927936) = Num (455989462271263 / 70368744177664)"
    using round_double_nearest [of "466933209365773307 / 72057594037927936" 50 7295831396340208] by simp
  show "round_double (472697816888807547 / 72057594037927936) = Num (3692951694443809 / 562949953421312)"
    using round_double_nearest [of "472697816888807547 / 72057594037927936" 50 7385903388887618] by simp
  show "round_double (478462424411841787 / 72057594037927936) = Num (1868993845358757 / 281474976710656)"
    using round_double_nearest [of "478462424411841787 / 72057594037927936" 50 7475975381435028] by simp
  show "round_double (484227031934876027 / 72057594037927936) = Num (3783023686991219 / 562949953421312)"
    using round_double_nearest [of "484227031934876027 / 72057594037927936" 50 7566047373982438] by simp
  show "round_double (489991639457910267 / 72057594037927936) = Num (957014920816231 / 140737488355328)"
    using round_double_nearest [of "489991639457910267 / 72057594037927936" 50 7656119366529848] by simp
  show "round_double (495756246980944507 / 72057594037927936) = Num (3873095679538629 / 562949953421312)"
    using round_double_nearest [of "495756246980944507 / 72057594037927936" 50 7746191359077258] by simp
  show "round_double (501520854503978747 / 72057594037927936) = Num (1959065837906167 / 281474976710656)"
    using round_double_nearest [of "501520854503978747 / 72057594037927936" 50 7836263351624668] by simp
  show "round_double (507285462027012987 / 72057594037927936) = Num (3963167672086039 / 562949953421312)"
    using round_double_nearest [of "507285462027012987 / 72057594037927936" 50 7926335344172078] by simp
  show "round_double (513050069550047227 / 72057594037927936) = Num (62628182318121 / 8796093022208)"
    using round_double_nearest [of "513050069550047227 / 72057594037927936" 50 8016407336719488] by simp
  show "round_double (518814677073081467 / 72057594037927936) = Num (4053239664633449 / 562949953421312)"
    using round_double_nearest [of "518814677073081467 / 72057594037927936" 50 8106479329266898] by simp
  show "round_double (524579284596115707 / 72057594037927936) = Num (2049137830453577 / 281474976710656)"
    using round_double_nearest [of "524579284596115707 / 72057594037927936" 50 8196551321814308] by simp
  show "round_double (530343892119149947 / 72057594037927936) = Num (4143311657180859 / 562949953421312)"
    using round_double_nearest [of "530343892119149947 / 72057594037927936" 50 8286623314361718] by simp
  show "round_double (536108499642184187 / 72057594037927936) = Num (1047086913363641 / 140737488355328)"
    using round_double_nearest [of "536108499642184187 / 72057594037927936" 50 8376695306909128] by simp
  show "round_double (541873107165218427 / 72057594037927936) = Num (4233383649728269 / 562949953421312)"
    using round_double_nearest [of "541873107165218427 / 72057594037927936" 50 8466767299456538] by simp
  show "round_double (547637714688252667 / 72057594037927936) = Num (2139209823000987 / 281474976710656)"
    using round_double_nearest [of "547637714688252667 / 72057594037927936" 50 8556839292003948] by simp
  show "round_double (553402322211286907 / 72057594037927936) = Num (4323455642275679 / 562949953421312)"
    using round_double_nearest [of "553402322211286907 / 72057594037927936" 50 8646911284551358] by simp
  show "round_double (559166929734321147 / 72057594037927936) = Num (546061454818673 / 70368744177664)"
    using round_double_nearest [of "559166929734321147 / 72057594037927936" 50 8736983277098768] by simp
  show "round_double (564931537257355387 / 72057594037927936) = Num (4413527634823089 / 562949953421312)"
    using round_double_nearest [of "564931537257355387 / 72057594037927936" 50 8827055269646178] by simp
  show "round_double (570696144780389627 / 72057594037927936) = Num (2229281815548397 / 281474976710656)"
    using round_double_nearest [of "570696144780389627 / 72057594037927936" 50 8917127262193588] by simp
  show "round_double (576460752303423867 / 72057594037927936) = Num (4503599627370499 / 562949953421312)"
    using round_double_nearest [of "576460752303423867 / 72057594037927936" 49 4503599627370499] by simp
  show "round_double (582225359826458107 / 72057594037927936) = Num (1137158905911051 / 140737488355328)"
    using round_double_nearest [of "582225359826458107 / 72057594037927936" 49 4548635623644204] by simp
  show "round_double (587989967349492347 / 72057594037927936) = Num (4593671619917909 / 562949953421312)"
    using round_double_nearest [of "587989967349492347 / 72057594037927936" 49 4593671619917909] by simp
  show "round_double (593754574872526587 / 72057594037927936) = Num (2319353808095807 / 281474976710656)"
    using round_double_nearest [of "593754574872526587 / 72057594037927936" 49 4638707616191614] by simp
  show "round_double (599519182395560827 / 72057594037927936) = Num (4683743612465319 / 562949953421312)"
    using round_double_nearest [of "599519182395560827 / 72057594037927936" 49 4683743612465319] by simp
  show "round_double (605283789918595067 / 72057594037927936) = Num (295548725546189 / 35184372088832)"
    using round_double_nearest [of "605283789918595067 / 72057594037927936" 49 4728779608739024] by simp
  show "round_double (611048397441629307 / 72057594037927936) = Num (4773815605012729 / 562949953421312)"
    using round_double_nearest [of "611048397441629307 / 72057594037927936" 49 4773815605012729] by simp
  show "round_double (616813004964663547 / 72057594037927936) = Num (2409425800643217 / 281474976710656)"
    using round_double_nearest [of "616813004964663547 / 72057594037927936" 49 4818851601286434] by simp
  show "round_double (622577612487697787 / 72057594037927936) = Num (4863887597560139 / 562949953421312)"
    using round_double_nearest [of "622577612487697787 / 72057594037927936" 49 4863887597560139] by simp
  show "round_double (628342220010732027 / 72057594037927936) = Num (1227230898458461 / 140737488355328)"
    using round_double_nearest [of "628342220010732027 / 72057594037927936" 49 4908923593833844] by simp
  show "round_double (634106827533766267 / 72057594037927936) = Num (4953959590107549 / 562949953421312)"
    using round_double_nearest [of "634106827533766267 / 72057594037927936" 49 4953959590107549] by simp
  show "round_double (639871435056800507 / 72057594037927936) = Num (2499497793190627 / 281474976710656)"
    using round_double_nearest [of "639871435056800507 / 72057594037927936" 49 4998995586381254] by simp
  show "round_double (645636042579834747 / 72057594037927936) = Num (5044031582654959 / 562949953421312)"
    using round_double_nearest [of "645636042579834747 / 72057594037927936" 49 5044031582654959] by simp
  show "round_double (651400650102868987 / 72057594037927936) = Num (636133447366083 / 70368744177664)"
    using round_double_nearest [of "651400650102868987 / 72057594037927936" 49 5089067578928664] by simp
  show "round_double (657165257625903227 / 72057594037927936) = Num (5134103575202369 / 562949953421312)"
    using round_double_nearest [of "657165257625903227 / 72057594037927936" 49 5134103575202369] by simp
  show "round_double (662929865148937467 / 72057594037927936) = Num (2589569785738037 / 281474976710656)"
    using round_double_nearest [of "662929865148937467 / 72057594037927936" 49 5179139571476074] by simp
  show "round_double (668694472671971707 / 72057594037927936) = Num (5224175567749779 / 562949953421312)"
    using round_double_nearest [of "668694472671971707 / 72057594037927936" 49 5224175567749779] by simp
  show "round_double (674459080195005947 / 72057594037927936) = Num (1317302891005871 / 140737488355328)"
    using round_double_nearest [of "674459080195005947 / 72057594037927936" 49 5269211564023484] by simp
  show "round_double (680223687718040187 / 72057594037927936) = Num (5314247560297189 / 562949953421312)"
    using round_double_nearest [of "680223687718040187 / 72057594037927936" 49 5314247560297189] by simp
  show "round_double (685988295241074427 / 72057594037927936) = Num (2679641778285447 / 281474976710656)"
    using round_double_nearest [of "685988295241074427 / 72057594037927936" 49 5359283556570894] by simp
  show "round_double (691752902764108667 / 72057594037927936) = Num (5404319552844599 / 562949953421312)"
    using round_double_nearest [of "691752902764108667 / 72057594037927936" 49 5404319552844599] by simp
  show "round_double (697517510287142907 / 72057594037927936) = Num (170292360909947 / 17592186044416)"
    using round_double_nearest [of "697517510287142907 / 72057594037927936" 49 5449355549118304] by simp
  show "round_double (703282117810177147 / 72057594037927936) = Num (5494391545392009 / 562949953421312)"
    using round_double_nearest [of "703282117810177147 / 72057594037927936" 49 5494391545392009] by simp
  show "round_double (709046725333211387 / 72057594037927936) = Num (2769713770832857 / 281474976710656)"
    using round_double_nearest [of "709046725333211387 / 72057594037927936" 49 5539427541665714] by simp
  show "round_double (714811332856245627 / 72057594037927936) = Num (5584463537939419 / 562949953421312)"
    using round_double_nearest [of "714811332856245627 / 72057594037927936" 49 5584463537939419] by simp
  show "round_double (720575940379279867 / 72057594037927936) = Num (1407374883553281 / 140737488355328)"
    using round_double_nearest [of "720575940379279867 / 72057594037927936" 49 5629499534213124] by simp
qed

subsection \<open>Monotonicity\<close>

lemma round_double_neg_numeral_int:
  "numeral k \<le> (2::int) ^ 53 \<Longrightarrow> round_double (- numeral k) = Num (- numeral k)"
  using round_double_int [of "- numeral k"] by simp

lemma increment_nonneg:
  assumes "js_ge v (Num 0)"
  shows "(\<exists>i. js_div v (Num 125) = Num i \<and> 0 \<le> i) \<or> js_div v (Num 125) = PosInf"
proof (cases v)
  case (Num t)
  with assms have "0 \<le> t / 125" by simp
  then have "js_ge (round_double (t / 125)) (round_double 0)" by (rule round_double_mono)
  then have "js_ge (round_double (t / 125)) (Num 0)" by (simp only: round_double_0)
  then show ?thesis using Num by (cases "round_double (t / 125)") simp_all
qed (use assms in simp_all)

lemma add_nonneg:
  assumes "round_double s = Num s"
    and "(\<exists>i. d = Num i \<and> 0 \<le> i) \<or> d = PosInf"
  shows "(\<exists>s'. js_add (Num s) d = Num s' \<and> s \<le> s' \<and> round_double s' = Num s') \<or>
     js_add (Num s) d = PosInf"
  using assms(2)
proof
  assume "\<exists>i. d = Num i \<and> 0 \<le> i"
  then obtain i where d: "d = Num i" and i: "0 \<le> i" by blast
  from i have "s \<le> s + i" by simp
  then have "js_ge (round_double (s + i)) (round_double s)" by (rule round_double_mono)
  then have ge: "js_ge (round_double (s + i)) (Num s)" by (simp only: assms(1))
  show ?thesis
  proof (cases "round_double (s + i)")
    case (Num s')
    then have "round_double s' = Num s'" by (rule round_double_idem)
    with Num ge d show ?thesis by simp
  qed (use ge d in simp_all)
next
  assume "d = PosInf"
  then show ?thesis by simp
qed

lemma ramp_state_started:
  assumes "js_ge v (Num 0)"
  shows "ramp_state v (started v)"
proof -
  have "started v = sampling v (Num 0) (Num (of_int 0)) True" by (simp add: started_eq)
  moreover have "round_double 0 = Num 0" by (rule round_double_0)
  moreover have "(of_int 0 :: rat) \<le> 0" by simp
  moreover have "js_ge v (Num (of_int 0))" using assms by simp
  ultimately show ?thesis unfolding ramp_state_def by blast
qed

lemma ramp_state_step:
  assumes v: "js_ge v (Num 0)" and st: "ramp_state v st"
  shows "ramp_state v (step st (Interval 0)) \<and>
     js_ge (count (step st (Interval 0))) (count st) \<and> js_ge v (count st)"
proof -
  from st have "(\<exists>s z. st = sampling v (Num s) (Num (of_int z)) True \<and> round_double s = Num s \<and>
             of_int z \<le> s \<and> js_ge v (Num (of_int z))) \<or>
      (\<exists>a. st = sampling v a v False)"
    by (simp only: ramp_state_def)
  then show ?thesis
  proof (elim disjE exE conjE)
  fix s z
  assume st: "st = sampling v (Num s) (Num (of_int z)) True"
    and rep: "round_double s = Num s" and zs: "of_int z \<le> s" and zv: "js_ge v (Num (of_int z))"
  define a where "a = js_add (Num s) (js_div v (Num 125))"
  have next_state: "step st (Interval 0) =
      (if js_ge a v then sampling v a v False else sampling v a (js_floor a) True)"
    unfolding st a_def by (rule step_sampling_set)
  have a: "(\<exists>s'. a = Num s' \<and> s \<le> s' \<and> round_double s' = Num s') \<or> a = PosInf"
    unfolding a_def using rep increment_nonneg [OF v] by (rule add_nonneg)
  have cnt: "count st = Num (of_int z)" by (simp add: st sampling_fields)
  show ?thesis
  proof (cases "js_ge a v")
    case True
    then have n: "step st (Interval 0) = sampling v a v False" by (simp add: next_state)
    have "ramp_state (v) (sampling v a v False)" unfolding ramp_state_def by blast
    then show ?thesis using zv by (simp add: n cnt sampling_fields)
  next
    case False
    then have n: "step st (Interval 0) = sampling v a (js_floor a) True"
      by (simp add: next_state)
    have "v \<noteq> NaN" using v by (cases v) simp_all
    then have "a \<noteq> PosInf" using False by (cases v) auto
    with a obtain s' where s': "a = Num s'" "s \<le> s'" "round_double s' = Num s'" by blast
    have fl: "js_floor a = Num (of_int \<lfloor>s'\<rfloor>)" by (simp add: s'(1))
    have le: "(of_int \<lfloor>s'\<rfloor> :: rat) \<le> s'" by simp
    have "of_int z \<le> s'" using zs s'(2) by simp
    then have zz: "z \<le> \<lfloor>s'\<rfloor>" by (simp add: le_floor_iff)
    have below: "js_ge v (Num (of_int \<lfloor>s'\<rfloor>))"
    proof (cases v)
      case (Num t)
      with False s'(1) have "s' < t" by simp
      with le have "of_int \<lfloor>s'\<rfloor> \<le> t" by linarith
      then show ?thesis using Num by simp
    qed (use v in simp_all)
    have "ramp_state v (sampling v (Num s') (Num (of_int \<lfloor>s'\<rfloor>)) True)"
      unfolding ramp_state_def using s'(3) le below by blast
    then show ?thesis using zz zv by (simp add: n cnt fl s'(1) sampling_fields)
  qed
next
  fix a
  assume st: "st = sampling v a v False"
  have "v \<noteq> NaN" using v by (cases v) simp_all
  then have "js_ge v v" by (rule js_ge_refl)
  moreover have "ramp_state v (sampling v a v False)" unfolding ramp_state_def by blast
  ultimately show ?thesis
    by (simp add: st step_sampling_cleared sampling_fields)
  qed
qed

lemma ramp_state_ticks:
  assumes "js_ge v (Num 0)"
  shows "ramp_state v (ticks k (started v))"
proof (induction k)
  case 0
  show ?case using assms by (simp add: ticks_0 ramp_state_started)
next
  case (Suc k)
  show ?case using ramp_state_step [OF assms Suc] by (simp add: ticks_Suc)
qed

text \<open>
  C3. For a target \<open>v \<ge> 0\<close> the value shown after a sample is not below the value shown
  before it (the sequence starts at 0, and after the last sample it stays), and no value
  shown is above \<open>v\<close>.
\<close>

theorem counter_monotone:
  assumes "js_ge v (Num 0)"
  shows "count (ticks 0 (started v)) = Num 0 \<and>
     js_ge (count (ticks (Suc k) (started v))) (count (ticks k (started v))) \<and>
     js_ge v (count (ticks k (started v)))"
proof -
  have "ramp_state v (ticks k (started v))" using assms by (rule ramp_state_ticks)
  with assms have "js_ge (count (step (ticks k (started v)) (Interval 0))) (count (ticks k (started v))) \<and>
     js_ge v (count (ticks k (started v)))"
    using ramp_state_step by blast
  then show ?thesis by (simp add: ticks_Suc ticks_0 started_eq sampling_fields)
qed


lemma accumulator_numeral:
  "accumulator v (numeral n) = js_add (accumulator v (pred_numeral n)) (js_div v (Num 125))"
  by (simp add: numeral_eq_Suc accumulator_Suc)

lemma accumulator10_124: "accumulator (Num 10) 124 = Num (5584463537939419 / 562949953421312)"
  by (simp add: accumulator_numeral accumulator_Suc accumulator_0 ramp10)

lemma accumulator10_125: "accumulator (Num 10) 125 = Num (1407374883553281 / 140737488355328)"
  by (simp add: accumulator_numeral accumulator_Suc accumulator_0 ramp10)

subsection \<open>Reaching the target\<close>

lemma accumulator_shape:
  assumes "js_ge v (Num 0)"
  shows "(\<exists>s. accumulator v k = Num s \<and> round_double s = Num s) \<or> accumulator v k = PosInf"
proof (induction k)
  case 0
  show ?case by (simp add: accumulator_0 round_double_0)
next
  case (Suc k)
  note d = increment_nonneg [OF assms]
  from Suc show ?case
  proof
    assume "\<exists>s. accumulator v k = Num s \<and> round_double s = Num s"
    then obtain s where s: "accumulator v k = Num s" "round_double s = Num s" by blast
    from add_nonneg [OF s(2) d] show ?thesis by (auto simp: accumulator_Suc s(1))
  next
    assume "accumulator v k = PosInf"
    then show ?thesis using d by (auto simp: accumulator_Suc)
  qed
qed

lemma accumulator_step_mono:
  assumes "js_ge v (Num 0)"
  shows "js_ge (accumulator v (Suc k)) (accumulator v k)"
proof -
  note d = increment_nonneg [OF assms]
  from accumulator_shape [OF assms, of k] show ?thesis
  proof
    assume "\<exists>s. accumulator v k = Num s \<and> round_double s = Num s"
    then obtain s where s: "accumulator v k = Num s" "round_double s = Num s" by blast
    from add_nonneg [OF s(2) d] show ?thesis by (auto simp: accumulator_Suc s(1))
  next
    assume "accumulator v k = PosInf"
    then show ?thesis using d by (auto simp: accumulator_Suc)
  qed
qed

lemma accumulator_mono:
  assumes "js_ge v (Num 0)" and "k \<le> n"
  shows "js_ge (accumulator v n) (accumulator v k)"
  using assms(2)
proof (induction n)
  case 0
  then show ?case by (simp add: accumulator_0)
next
  case (Suc n)
  show ?case
  proof (cases "k = Suc n")
    case True
    have "accumulator v k \<noteq> NaN" using accumulator_shape [OF assms(1), of k] by auto
    then show ?thesis unfolding True [symmetric] by (rule js_ge_refl)
  next
    case False
    with Suc.prems have "k \<le> n" by simp
    then have "js_ge (accumulator v n) (accumulator v k)" by (rule Suc.IH)
    with accumulator_step_mono [OF assms(1), of n] show ?thesis by (rule js_ge_trans)
  qed
qed

lemma accumulator_below:
  assumes "js_ge v (Num 0)" and "\<not> js_ge (accumulator v n) v" and "k \<le> n"
  shows "\<not> js_ge (accumulator v k) v"
proof
  assume "js_ge (accumulator v k) v"
  with accumulator_mono [OF assms(1,3)] have "js_ge (accumulator v n) v" by (rule js_ge_trans)
  with assms(2) show False by simp
qed

lemma accumulator10_below:
  "\<forall>k. 1 \<le> k \<and> k \<le> 124 \<longrightarrow> \<not> js_ge (accumulator (Num 10) k) (Num 10)"
proof (intro allI impI)
  fix k :: nat
  assume "1 \<le> k \<and> k \<le> 124"
  then have "k \<le> 124" by simp
  moreover have "js_ge (Num 10) (Num 0)" by simp
  moreover have "\<not> js_ge (accumulator (Num 10) 124) (Num 10)"
    by (simp add: accumulator10_124)
  ultimately show "\<not> js_ge (accumulator (Num 10) k) (Num 10)"
    using accumulator_below by blast
qed

lemma accumulator10_reached: "js_ge (accumulator (Num 10) (Suc 124)) (Num 10)"
proof -
  have "Suc 124 = 125" by simp
  then show ?thesis by (simp only: accumulator10_125) simp
qed

text \<open>
  C2. The counter of the page has target 10. Its increment is the number nearest to
  10/125. After each of the first 124 samples the accumulator is below 10 and the interval
  is still set; at sample 125 the accumulator reaches 10, the value shown is set to 10 and
  the interval is cleared, so that nothing changes afterwards.
\<close>

theorem counter_ten:
  "increment (effects (started (Num 10)) ! 0) = round_double (10 / 125) \<and>
   (\<forall>k<125. timer (effects (ticks k (started (Num 10))) ! 0) \<and>
      \<not> js_ge (start (effects (ticks k (started (Num 10))) ! 0)) (Num 10)) \<and>
   js_ge (start (effects (ticks 125 (started (Num 10))) ! 0)) (Num 10) \<and>
   count (ticks 125 (started (Num 10))) = Num 10 \<and>
   \<not> timer (effects (ticks 125 (started (Num 10))) ! 0) \<and>
   (\<forall>m. ticks (125 + m) (started (Num 10)) = ticks 125 (started (Num 10)))"
proof -
  have inc: "increment (effects (started (Num 10)) ! 0) = round_double (10 / 125)"
    by (simp add: started_eq sampling_fields)
  have before: "timer (effects (ticks k (started (Num 10))) ! 0) \<and>
      \<not> js_ge (start (effects (ticks k (started (Num 10))) ! 0)) (Num 10)" if "k < 125" for k
  proof -
    from that have k: "k \<le> 124" by simp
    have "\<forall>i. 1 \<le> i \<and> i \<le> k \<longrightarrow> \<not> js_ge (accumulator (Num 10) i) (Num 10)"
      using accumulator10_below k by auto
    then have st: "ticks k (started (Num 10)) =
        sampling (Num 10) (accumulator (Num 10) k)
          (if k = 0 then Num 0 else js_floor (accumulator (Num 10) k)) True"
      by (rule ticks_below)
    have "\<not> js_ge (accumulator (Num 10) 124) (Num 10)" by (simp add: accumulator10_124)
    then have "\<not> js_ge (accumulator (Num 10) k) (Num 10)"
      using accumulator_below [of "Num 10" 124 k] k by simp
    then show ?thesis by (simp add: st sampling_fields del: js_div.simps)
  qed
  have after: "ticks (Suc 124 + m) (started (Num 10)) =
      sampling (Num 10) (accumulator (Num 10) (Suc 124)) (Num 10) False" for m
    using accumulator10_below accumulator10_reached by (rule ticks_reached)
  have s125: "Suc 124 = 125" by simp
  have after': "ticks (125 + m) (started (Num 10)) =
      sampling (Num 10) (accumulator (Num 10) 125) (Num 10) False" for m
    using after [of m] by (simp only: s125)
  have at: "ticks 125 (started (Num 10)) =
      sampling (Num 10) (accumulator (Num 10) 125) (Num 10) False"
    using after' [of 0] by simp
  have reached: "js_ge (accumulator (Num 10) 125) (Num 10)"
    using accumulator10_reached by (simp only: s125)
  show ?thesis
    using inc before reached
    by (simp add: at after' sampling_fields del: js_div.simps)
qed

theorem counter_ten_witness:
  "timer (effects (ticks 124 (started (Num 10))) ! 0) \<and>
   \<not> js_ge (start (effects (ticks 124 (started (Num 10))) ! 0)) (Num 10) \<and>
   count (ticks 125 (started (Num 10))) = Num 10 \<and>
   \<not> timer (effects (ticks 125 (started (Num 10))) ! 0)"
  using counter_ten by simp

text \<open>
  C6. The counter keeps an accumulator that starts at 0 and grows at every sample by the
  increment \<open>target / (duration / interval)\<close>. As long as the accumulator has not reached
  the target, the interval stays set and the value shown is the floor of the accumulator
  (0 before the first sample). At the first sample where the accumulator reaches the
  target the value shown is the target itself and the interval is cleared: later periods
  change nothing. The accumulator is a number of the program: each sum is rounded.
\<close>

theorem counter_algorithm:
  assumes "\<forall>k. 1 \<le> k \<and> k \<le> n \<longrightarrow> \<not> js_ge (accumulator v k) v"
  shows "accumulator v 0 = Num 0 \<and>
     accumulator v (Suc k) =
       js_add (accumulator v k) (js_div v (js_div (Num 2000) (Num 16))) \<and>
     (\<forall>k\<le>n.
        effects (ticks k (started v)) =
          [\<lparr>start = accumulator v k, end_value = v,
            increment = js_div v (js_div (Num 2000) (Num 16)), timer = True\<rparr>] \<and>
        count (ticks k (started v)) = (if k = 0 then Num 0 else js_floor (accumulator v k))) \<and>
     (js_ge (accumulator v (Suc n)) v \<longrightarrow>
        effects (ticks (Suc n + m) (started v)) =
          [\<lparr>start = accumulator v (Suc n), end_value = v,
            increment = js_div v (js_div (Num 2000) (Num 16)), timer = False\<rparr>] \<and>
        count (ticks (Suc n + m) (started v)) = v)"
proof -
  have running: "ticks k (started v) =
      sampling v (accumulator v k) (if k = 0 then Num 0 else js_floor (accumulator v k)) True"
    if "k \<le> n" for k
  proof (rule ticks_below)
    show "\<forall>i. 1 \<le> i \<and> i \<le> k \<longrightarrow> \<not> js_ge (accumulator v i) v"
      using assms that by auto
  qed
  have 1: "accumulator v 0 = Num 0" by (rule accumulator_0)
  have 2: "accumulator v (Suc k) =
      js_add (accumulator v k) (js_div v (js_div (Num 2000) (Num 16)))"
    by (simp only: accumulator_Suc period_eq)
  have 3: "\<forall>k\<le>n.
        effects (ticks k (started v)) =
          [\<lparr>start = accumulator v k, end_value = v,
            increment = js_div v (js_div (Num 2000) (Num 16)), timer = True\<rparr>] \<and>
        count (ticks k (started v)) = (if k = 0 then Num 0 else js_floor (accumulator v k))"
    by (simp add: running sampling_def del: js_div.simps)
  have 4: "effects (ticks (Suc n + m) (started v)) =
          [\<lparr>start = accumulator v (Suc n), end_value = v,
            increment = js_div v (js_div (Num 2000) (Num 16)), timer = False\<rparr>] \<and>
        count (ticks (Suc n + m) (started v)) = v"
    if reached: "js_ge (accumulator v (Suc n)) v"
  proof -
    have cleared: "ticks (Suc n + m) (started v) = sampling v (accumulator v (Suc n)) v False"
      using assms reached by (rule ticks_reached)
    show ?thesis unfolding cleared by (simp add: sampling_def del: js_div.simps)
  qed
  from 1 2 3 4 show ?thesis by blast
qed

theorem counter_algorithm_witness:
  "count (ticks 12 (started (Num 10))) = Num 0 \<and>
   count (ticks 13 (started (Num 10))) = Num 1 \<and>
   effects (ticks 124 (started (Num 10))) =
     [\<lparr>start = accumulator (Num 10) 124, end_value = Num 10,
       increment = js_div (Num 10) (js_div (Num 2000) (Num 16)), timer = True\<rparr>] \<and>
   js_ge (accumulator (Num 10) (Suc 124)) (Num 10) \<and>
   effects (ticks (Suc 124 + 5) (started (Num 10))) =
     [\<lparr>start = accumulator (Num 10) (Suc 124), end_value = Num 10,
       increment = js_div (Num 10) (js_div (Num 2000) (Num 16)), timer = False\<rparr>] \<and>
   count (ticks (Suc 124 + 5) (started (Num 10))) = Num 10"
proof -
  note alg = counter_algorithm [OF accumulator10_below, of 0 5]
  have a12: "js_floor (accumulator (Num 10) 12) = Num 0"
    by (simp add: accumulator_numeral accumulator_Suc accumulator_0 ramp10 floor_eq_iff)
  have a13: "js_floor (accumulator (Num 10) 13) = Num 1"
    by (simp add: accumulator_numeral accumulator_Suc accumulator_0 ramp10 floor_eq_iff)
  from alg have all: "\<forall>k\<le>124.
        effects (ticks k (started (Num 10))) =
          [\<lparr>start = accumulator (Num 10) k, end_value = Num 10,
            increment = js_div (Num 10) (js_div (Num 2000) (Num 16)), timer = True\<rparr>] \<and>
        count (ticks k (started (Num 10))) =
          (if k = 0 then Num 0 else js_floor (accumulator (Num 10) k))"
    by blast
  from all have "count (ticks 12 (started (Num 10))) = js_floor (accumulator (Num 10) 12)"
    by simp
  then have 1: "count (ticks 12 (started (Num 10))) = Num 0" by (simp only: a12)
  from all have "count (ticks 13 (started (Num 10))) = js_floor (accumulator (Num 10) 13)"
    by simp
  then have 2: "count (ticks 13 (started (Num 10))) = Num 1" by (simp only: a13)
  from all have 3: "effects (ticks 124 (started (Num 10))) =
     [\<lparr>start = accumulator (Num 10) 124, end_value = Num 10,
       increment = js_div (Num 10) (js_div (Num 2000) (Num 16)), timer = True\<rparr>]"
    by blast
  note 4 = accumulator10_reached
  from alg 4 have 5: "effects (ticks (Suc 124 + 5) (started (Num 10))) =
     [\<lparr>start = accumulator (Num 10) (Suc 124), end_value = Num 10,
       increment = js_div (Num 10) (js_div (Num 2000) (Num 16)), timer = False\<rparr>] \<and>
   count (ticks (Suc 124 + 5) (started (Num 10))) = Num 10"
    by blast
  from 1 2 3 4 5 show ?thesis by blast
qed

text \<open>
  C7. With target 0 the period \<open>duration / 16\<close> is 125, not zero, and the increment is 0.
  The first sample finds the accumulator, 0, at the target: the value shown is 0 and the
  interval is cleared, so this sample is the only one.
\<close>

theorem counter_zero:
  "js_div (Num 2000) (Num 16) = Num 125 \<and>
   increment (effects (started (Num 0)) ! 0) = Num 0 \<and>
   count (started (Num 0)) = Num 0 \<and>
   timer (effects (started (Num 0)) ! 0) \<and>
   count (ticks (Suc m) (started (Num 0))) = Num 0 \<and>
   \<not> timer (effects (ticks (Suc m) (started (Num 0))) ! 0) \<and>
   ticks (Suc m) (started (Num 0)) = ticks 1 (started (Num 0))"
proof -
  have reached: "js_ge (accumulator (Num 0) (Suc 0)) (Num 0)"
    by (simp add: accumulator_Suc accumulator_0 round_double_0)
  have none: "\<forall>k. 1 \<le> k \<and> k \<le> 0 \<longrightarrow> \<not> js_ge (accumulator (Num 0) k) (Num 0)"
    by simp
  have cleared: "ticks (Suc 0 + i) (started (Num 0)) =
      sampling (Num 0) (accumulator (Num 0) (Suc 0)) (Num 0) False" for i
    using none reached by (rule ticks_reached)
  have acc: "accumulator (Num 0) (Suc 0) = Num 0"
    by (simp add: accumulator_Suc accumulator_0 round_double_0)
  have at: "ticks (Suc i) (started (Num 0)) = sampling (Num 0) (Num 0) (Num 0) False" for i
    using cleared [of i] by (simp only: acc plus_nat.add_Suc plus_nat.add_0)
  have 1: "js_div (Num 2000) (Num 16) = Num 125" by (rule period_eq)
  have 2: "increment (effects (started (Num 0)) ! 0) = Num 0"
    by (simp add: started_eq sampling_fields round_double_0)
  have 3: "count (started (Num 0)) = Num 0" "timer (effects (started (Num 0)) ! 0)"
    by (simp_all add: started_eq sampling_fields)
  have 4: "count (ticks (Suc m) (started (Num 0))) = Num 0"
    "\<not> timer (effects (ticks (Suc m) (started (Num 0))) ! 0)"
    unfolding at by (simp_all add: sampling_fields)
  have 5: "ticks (Suc m) (started (Num 0)) = ticks 1 (started (Num 0))"
    using at [of m] at [of 0] by simp
  from 1 2 3 4 5 show ?thesis by blast
qed

text \<open>
  C10. With a negative target the accumulator after the first sample, one increment, is
  already at or above the target: the value shown jumps to the target at that sample and
  the interval is cleared. No ramp from 0 down to the target is shown.
\<close>

theorem counter_negative:
  assumes "is_double v" and "js_lt v (Num 0)"
  shows "js_ge (accumulator v 1) v \<and>
     count (ticks 0 (started v)) = Num 0 \<and>
     count (ticks (Suc m) (started v)) = v \<and>
     \<not> timer (effects (ticks (Suc m) (started v)) ! 0) \<and>
     ticks (Suc m) (started v) = ticks 1 (started v)"
proof -
  have reached: "js_ge (accumulator v (Suc 0)) v"
  proof (cases v)
    case (Num t)
    with assms have t: "t < 0" and rep: "round_double t = Num t" by simp_all
    from t have "t \<le> t / 125" by simp
    then have "js_ge (round_double (t / 125)) (round_double t)" by (rule round_double_mono)
    moreover from t have "t / 125 \<le> 0" by simp
    then have "js_ge (round_double 0) (round_double (t / 125))" by (rule round_double_mono)
    ultimately have b: "js_ge (round_double (t / 125)) (Num t)" "js_ge (Num 0) (round_double (t / 125))"
      by (simp_all only: rep round_double_0)
    then obtain i where i: "round_double (t / 125) = Num i" "t \<le> i"
      by (cases "round_double (t / 125)") simp_all
    from i(1) have "round_double i = Num i" by (rule round_double_idem)
    then show ?thesis using Num i by (simp add: accumulator_Suc accumulator_0)
  qed (use assms in \<open>simp_all add: accumulator_Suc accumulator_0\<close>)
  have none: "\<forall>k. 1 \<le> k \<and> k \<le> 0 \<longrightarrow> \<not> js_ge (accumulator v k) v"
    by simp
  have cleared: "ticks (Suc 0 + i) (started v) =
      sampling v (accumulator v (Suc 0)) v False" for i
    using none reached by (rule ticks_reached)
  have at: "ticks (Suc i) (started v) = sampling v (accumulator v (Suc 0)) v False" for i
    using cleared [of i] by (simp only: plus_nat.add_Suc plus_nat.add_0)
  have 1: "js_ge (accumulator v 1) v" using reached by simp
  have 2: "count (ticks 0 (started v)) = Num 0"
    by (simp add: ticks_0 started_eq sampling_fields)
  have 3: "count (ticks (Suc m) (started v)) = v"
    "\<not> timer (effects (ticks (Suc m) (started v)) ! 0)"
    unfolding at by (simp_all add: sampling_fields del: js_div.simps)
  have 4: "ticks (Suc m) (started v) = ticks 1 (started v)"
    using at [of m] at [of 0] by simp
  from 1 2 3 4 show ?thesis by blast
qed

theorem counter_negative_witness:
  "is_double (Num (- 5)) \<and> js_lt (Num (- 5)) (Num 0) \<and>
   js_ge (accumulator (Num (- 5)) 1) (Num (- 5)) \<and>
   count (ticks (Suc 0) (started (Num (- 5)))) = Num (- 5) \<and>
   \<not> timer (effects (ticks (Suc 0) (started (Num (- 5)))) ! 0)"
proof -
  have d: "is_double (Num (- 5))" by (simp add: round_double_neg_numeral_int)
  have l: "js_lt (Num (- 5)) (Num 0)" by simp
  from counter_negative [OF d l, of 0] d l show ?thesis by blast
qed

theorem counter_monotone_witness:
  "js_ge (Num 10) (Num 0) \<and>
   js_ge (count (ticks (Suc 12) (started (Num 10)))) (count (ticks 12 (started (Num 10)))) \<and>
   js_ge (Num 10) (count (ticks 12 (started (Num 10))))"
proof -
  have v: "js_ge (Num 10) (Num 0)" by simp
  from counter_monotone [OF v, of 12] v show ?thesis by blast
qed

subsection \<open>Single playback\<close>















text \<open>
  The page passes \<open>once: true\<close>. Without the option the counter would play again: after an
  entry, a leave and a second entry the interval of the first run is cleared and a second
  run has set a new one, with the accumulator at 0.
\<close>

lemma restart_without_once:
  "effects (rerender False (rerender False (rerender False (mount v) True) False) True) =
     [\<lparr>start = Num 0, end_value = v,
        increment = js_div v (js_div (Num 2000) (Num 16)), timer = False\<rparr>,
      \<lparr>start = Num 0, end_value = v,
        increment = js_div v (js_div (Num 2000) (Num 16)), timer = True\<rparr>]"
  by (simp add: rerender_def useInView_def cleanup_def effect_def mount_def Let_def
      del: js_div.simps)


end
